theory Spec2Isabelle
  imports Main
begin

section \<open>Template helpers of internal/web/templates.go\<close>

text \<open>
  The development embeds the helper functions that \<open>parseTemplates\<close> puts into the
  template function map, the template composition itself, the watcher set-up of
  \<open>watchTemplates\<close> and the markdown tree pass \<open>ASTTransformer.Transform\<close>.
  Panics of the Go runtime are values of type \<open>panic\<close>; a function that can panic
  returns \<open>panic + 'a\<close>.
\<close>

text \<open>An \<open>error\<close> value: a plain error, or the aggregate that \<open>multierr\<close> builds.\<close>

datatype go_error =
    Err string
  | MultiErr "go_error list"

datatype panic =
    NilPointerDereference
  | IndexOutOfRange
  | MustFailed go_error

subsection \<open>Values behind \<open>any\<close> and the heap of backing arrays\<close>

text \<open>
  \<open>Reversed\<close> receives an \<open>any\<close> and inspects it through \<open>reflect\<close>. A value behind the
  interface is modelled by \<open>go_any\<close>. A slice is a header (backing array, offset, length)
  into a heap of backing arrays, so that sharing between the argument and the result is
  visible; an array is a value and carries its elements. Elements are kept boxed, as
  \<open>val.Index(i).Interface()\<close> returns them.
\<close>

datatype kind =
    Kind_Bool | Kind_Int | Kind_Float64 | Kind_String
  | Kind_Array | Kind_Slice | Kind_Map | Kind_Struct | Kind_Pointer | Kind_Func

type_synonym addr = nat

datatype go_any =
    AnyNil
  | AnyBool bool
  | AnyInt int
  | AnyString string
  | AnySlice addr nat nat
  | AnyArray "go_any list"
  | AnyMap "(go_any \<times> go_any) list"
  | AnyStruct "(string \<times> go_any) list"
  | AnyPointer addr
  | AnyFunc string

type_synonym heap = "go_any list list"

text \<open>\<open>reflect.TypeOf(param)\<close> followed by \<open>.Kind()\<close>: \<open>TypeOf(nil)\<close> is the nil
  \<open>Type\<close>, and calling \<open>Kind\<close> on it panics.\<close>

fun typeOfKind :: "go_any \<Rightarrow> panic + kind" where
  "typeOfKind AnyNil = Inl NilPointerDereference"
| "typeOfKind (AnyBool b) = Inr Kind_Bool"
| "typeOfKind (AnyInt i) = Inr Kind_Int"
| "typeOfKind (AnyString s) = Inr Kind_String"
| "typeOfKind (AnySlice a off n) = Inr Kind_Slice"
| "typeOfKind (AnyArray xs) = Inr Kind_Array"
| "typeOfKind (AnyMap m) = Inr Kind_Map"
| "typeOfKind (AnyStruct fs) = Inr Kind_Struct"
| "typeOfKind (AnyPointer a) = Inr Kind_Pointer"
| "typeOfKind (AnyFunc f) = Inr Kind_Func"

text \<open>\<open>val.Len()\<close> of a slice or array value.\<close>

fun valLen :: "go_any \<Rightarrow> nat" where
  "valLen (AnySlice a off n) = n"
| "valLen (AnyArray xs) = length xs"
| "valLen v = 0"

text \<open>\<open>val.Index(i).Interface()\<close>: reflect panics when \<open>i\<close> is outside \<open>[0, Len)\<close>.\<close>

fun valIndex :: "heap \<Rightarrow> go_any \<Rightarrow> nat \<Rightarrow> panic + go_any" where
  "valIndex h (AnySlice a off n) i =
     (if i < n then Inr ((h ! a) ! (off + i)) else Inl IndexOutOfRange)"
| "valIndex h (AnyArray xs) i =
     (if i < length xs then Inr (xs ! i) else Inl IndexOutOfRange)"
| "valIndex h v i = Inl IndexOutOfRange"

text \<open>\<open>newVal[j] = x\<close> on the slice header \<open>(a, off, n)\<close>.\<close>

definition sliceStore :: "heap \<Rightarrow> addr \<Rightarrow> nat \<Rightarrow> nat \<Rightarrow> nat \<Rightarrow> go_any \<Rightarrow> panic + heap" where
  "sliceStore h a off n j x =
     (if j < n then Inr (h[a := (h ! a)[off + j := x]]) else Inl IndexOutOfRange)"

text \<open>\<open>make([]interface{}, ln)\<close>: a new backing array of \<open>ln\<close> nil interfaces, at the
  first address the heap does not use yet.\<close>

definition makeSlice :: "heap \<Rightarrow> nat \<Rightarrow> addr \<times> heap" where
  "makeSlice h ln = (length h, h @ [replicate ln AnyNil])"

text \<open>The elements a sequence value denotes in a heap.\<close>

fun elems :: "heap \<Rightarrow> go_any \<Rightarrow> go_any list" where
  "elems h (AnySlice a off n) = take n (drop off (h ! a))"
| "elems h (AnyArray xs) = xs"
| "elems h v = []"

text \<open>A slice header is valid when it lies inside an allocated backing array; a slice
  of length zero (a nil slice among them) needs no backing array.\<close>

fun wellFormed :: "heap \<Rightarrow> go_any \<Rightarrow> bool" where
  "wellFormed h (AnySlice a off n) = (n = 0 \<or> (a < length h \<and> off + n \<le> length (h ! a)))"
| "wellFormed h v = True"

text \<open>The source sequence does not live in the backing array at \<open>new\<close>.\<close>

fun srcApart :: "go_any \<Rightarrow> addr \<Rightarrow> bool" where
  "srcApart (AnySlice a off n) new = (n = 0 \<or> a \<noteq> new)"
| "srcApart v new = True"

subsection \<open>\<open>Reversed\<close>\<close>

text \<open>
  The loop \<open>for i := 0; i < ln; i++ { newVal[ln-i-1] = val.Index(i).Interface() }\<close>.
\<close>

function reverseLoop :: "heap \<Rightarrow> go_any \<Rightarrow> addr \<Rightarrow> nat \<Rightarrow> nat \<Rightarrow> panic + heap" where
  "reverseLoop h val newVal ln i =
     (if i < ln then
        (case valIndex h val i of
           Inl p \<Rightarrow> Inl p
         | Inr x \<Rightarrow>
             (case sliceStore h newVal 0 ln (ln - i - 1) x of
                Inl p \<Rightarrow> Inl p
              | Inr h' \<Rightarrow> reverseLoop h' val newVal ln (i + 1)))
      else Inr h)"
  by pat_completeness auto
termination
  by (relation "measure (\<lambda>(h, val, newVal, ln, i). ln - i)") auto

definition Reversed :: "heap \<Rightarrow> go_any \<Rightarrow> panic + (go_any \<times> heap)" where
  "Reversed h param =
     (case typeOfKind param of
        Inl p \<Rightarrow> Inl p
      | Inr k \<Rightarrow>
          (if k = Kind_Slice \<or> k = Kind_Array then
             (let ln = valLen param;
                  (newVal, h1) = makeSlice h ln
              in case reverseLoop h1 param newVal ln 0 of
                   Inl p \<Rightarrow> Inl p
                 | Inr h2 \<Rightarrow> Inr (AnySlice newVal 0 ln, h2))
           else Inr (param, h)))"

subsection \<open>The markdown document tree and \<open>ast.Walk\<close>\<close>

text \<open>
  The node kinds of goldmark's \<open>ast\<close> package. The Linkify extension produces
  \<open>AutoLink\<close> nodes, a kind of its own beside \<open>Link\<close>. A node carries its kind, its
  attribute list and its children.
\<close>

datatype node_kind =
    KindDocument | KindTextBlock | KindParagraph | KindHeading | KindThematicBreak
  | KindCodeBlock | KindFencedCodeBlock | KindBlockquote | KindList | KindListItem
  | KindHTMLBlock | KindText | KindString | KindCodeSpan | KindEmphasis | KindLink
  | KindImage | KindAutoLink | KindRawHTML

type_synonym attributes = "(string \<times> string) list"

datatype node = Node node_kind attributes "node list"

text \<open>\<open>SetAttributeString\<close>: an attribute of that name is overwritten where it
  stands, otherwise the attribute is appended.\<close>

fun SetAttributeString :: "attributes \<Rightarrow> string \<Rightarrow> string \<Rightarrow> attributes" where
  "SetAttributeString [] name v = [(name, v)]"
| "SetAttributeString ((n, x) # as) name v =
     (if n = name then (name, v) # as else (n, x) # SetAttributeString as name v)"

text \<open>\<open>AttributeString\<close>: the value of the first attribute of that name.\<close>

fun AttributeString :: "attributes \<Rightarrow> string \<Rightarrow> string option" where
  "AttributeString [] name = None"
| "AttributeString ((n, x) # as) name = (if n = name then Some x else AttributeString as name)"

datatype walk_status = WalkStop | WalkSkipChildren | WalkContinue

text \<open>
  A walker sees a node's kind and attributes and whether the node is entered or left; it
  returns the attributes it leaves on the node, a status and an error. A position in the
  tree is the list of child indices from the root; the walk records each call of the
  walker as a position with the \<open>entering\<close> flag.
\<close>

type_synonym walker = "node_kind \<Rightarrow> attributes \<Rightarrow> bool \<Rightarrow> attributes \<times> walk_status \<times> go_error option"

type_synonym visit = "nat list \<times> bool"

text \<open>
  \<open>walkHelper\<close> calls the walker on entry, stops on an error or \<open>WalkStop\<close>, walks the
  children from first to last unless the status is \<open>WalkSkipChildren\<close>, and calls the walker
  again on exit. \<open>walkChildren\<close> is its loop over the siblings; it returns \<open>Some err\<close> when
  a child stopped the walk.
\<close>

fun walkHelper :: "walker \<Rightarrow> nat list \<Rightarrow> node \<Rightarrow> node \<times> visit list \<times> walk_status \<times> go_error option"
and walkChildren :: "walker \<Rightarrow> nat list \<Rightarrow> nat \<Rightarrow> node list \<Rightarrow> node list \<times> visit list \<times> go_error option option" where
  "walkHelper w p (Node k a cs) =
     (case w k a True of (a1, status, err) \<Rightarrow>
        if err \<noteq> None \<or> status = WalkStop then (Node k a1 cs, [(p, True)], status, err)
        else
          (case (if status \<noteq> WalkSkipChildren then walkChildren w p 0 cs else (cs, [], None)) of
             (cs', tr, Some err') \<Rightarrow> (Node k a1 cs', (p, True) # tr, WalkStop, err')
           | (cs', tr, None) \<Rightarrow>
               (case w k a1 False of (a2, status2, err2) \<Rightarrow>
                  if err2 \<noteq> None \<or> status2 = WalkStop
                  then (Node k a2 cs', (p, True) # tr @ [(p, False)], WalkStop, err2)
                  else (Node k a2 cs', (p, True) # tr @ [(p, False)], WalkContinue, None))))"
| "walkChildren w p i [] = ([], [], None)"
| "walkChildren w p i (c # cs) =
     (case walkHelper w (p @ [i]) c of (c', tr, st, err) \<Rightarrow>
        if err \<noteq> None \<or> st = WalkStop then (c' # cs, tr, Some err)
        else
          (case walkChildren w p (i + 1) cs of (cs', tr', stopped) \<Rightarrow>
             (c' # cs', tr @ tr', stopped)))"

definition Walk :: "node \<Rightarrow> walker \<Rightarrow> node \<times> visit list \<times> go_error option" where
  "Walk n w = (case walkHelper w [] n of (n', tr, st, err) \<Rightarrow> (n', tr, err))"

subsection \<open>\<open>ASTTransformer.Transform\<close>\<close>

definition transformWalker :: walker where
  "transformWalker k a entering =
     (if \<not> entering then (a, WalkContinue, None)
      else
        ((case k of
            KindLink \<Rightarrow>
              SetAttributeString (SetAttributeString a ''target'' ''_blank'') ''rel'' ''noopener noreferrer''
          | KindBlockquote \<Rightarrow>
              SetAttributeString a ''class'' ''border-start border-primary border-3 ps-2''
          | _ \<Rightarrow> a),
         WalkContinue, None))"

text \<open>\<open>Transform\<close> drops the error of the walk and leaves the document as the walk
  left it; \<open>TransformVisits\<close> is the record of the walker's calls.\<close>

definition Transform :: "node \<Rightarrow> node" where
  "Transform doc = fst (Walk doc transformWalker)"

definition TransformVisits :: "node \<Rightarrow> visit list" where
  "TransformVisits doc = fst (snd (Walk doc transformWalker))"

text \<open>The positions of a tree in document order, the node at a position, and the
  positions at which the walker was called on entry.\<close>

fun positions :: "nat list \<Rightarrow> node \<Rightarrow> nat list list"
and positionsList :: "nat list \<Rightarrow> nat \<Rightarrow> node list \<Rightarrow> nat list list" where
  "positions p (Node k a cs) = p # positionsList p 0 cs"
| "positionsList p i [] = []"
| "positionsList p i (c # cs) = positions (p @ [i]) c @ positionsList p (i + 1) cs"

fun nodeAt :: "node \<Rightarrow> nat list \<Rightarrow> node option" where
  "nodeAt n [] = Some n"
| "nodeAt (Node k a cs) (i # p) = (if i < length cs then nodeAt (cs ! i) p else None)"

definition entries :: "visit list \<Rightarrow> nat list list" where
  "entries tr = map fst (filter snd tr)"

subsection \<open>\<open>Markdown\<close>\<close>

text \<open>
  \<open>goldmark\<close>'s block and inline parsing (with Linkify) and its renderer are parameters:
  \<open>parseSource\<close> gives the document before the transformers run, \<open>renderDoc\<close> gives what
  the renderer wrote into the buffer and the error it returned. \<open>Convert\<close> parses, runs
  the one registered transformer and renders.
\<close>

record converter =
  parseSource :: "string \<Rightarrow> node"
  renderDoc :: "string \<Rightarrow> node \<Rightarrow> string \<times> go_error option"

definition Convert :: "converter \<Rightarrow> string \<Rightarrow> string \<times> go_error option" where
  "Convert c source = renderDoc c source (Transform (parseSource c source))"

definition Markdown :: "converter \<Rightarrow> string \<Rightarrow> string" where
  "Markdown c source =
     (case Convert c source of
        (buf, Some err) \<Rightarrow> ''<p>'' @ source @ ''</p>''
      | (buf, None) \<Rightarrow> buf)"

subsection \<open>Package handles and the helpers that take one\<close>

text \<open>
  A \<open>ctrlpkg.Package\<close> is an interface value. \<open>NilPackage\<close> is the nil interface: any
  method call on it panics. Otherwise the handle answers its methods; the record holds
  what \<open>IsNil()\<close>, \<open>AutoUpdatesEnabled()\<close> and \<open>GetSpec()\<close> return.
\<close>

record package_info =
  Name :: string
  Version :: string

record package_spec =
  PackageInfo :: package_info
  Suspend :: bool

record package_methods =
  IsNil :: bool
  AutoUpdatesEnabled :: bool
  GetSpec :: package_spec

datatype package = NilPackage | Package package_methods

fun callIsNil :: "package \<Rightarrow> panic + bool" where
  "callIsNil NilPackage = Inl NilPointerDereference"
| "callIsNil (Package m) = Inr (IsNil m)"

fun callAutoUpdatesEnabled :: "package \<Rightarrow> panic + bool" where
  "callAutoUpdatesEnabled NilPackage = Inl NilPointerDereference"
| "callAutoUpdatesEnabled (Package m) = Inr (AutoUpdatesEnabled m)"

fun callGetSpec :: "package \<Rightarrow> panic + package_spec" where
  "callGetSpec NilPackage = Inl NilPointerDereference"
| "callGetSpec (Package m) = Inr (GetSpec m)"

text \<open>\<open>t.repoClientset.ForPackage(pkg).GetPackageManifestURL(name, version)\<close> is a
  parameter: it returns a URL or an error.\<close>

type_synonym repo_clientset = "package \<Rightarrow> string \<Rightarrow> string \<Rightarrow> go_error + string"

definition PackageManifestUrl :: "repo_clientset \<Rightarrow> package \<Rightarrow> panic + string" where
  "PackageManifestUrl repoClientset pkg =
     (case callIsNil pkg of
        Inl p \<Rightarrow> Inl p
      | Inr isNil \<Rightarrow>
          if \<not> isNil then
            (case callGetSpec pkg of
               Inl p \<Rightarrow> Inl p
             | Inr spec \<Rightarrow>
                 (case repoClientset pkg (Name (PackageInfo spec)) (Version (PackageInfo spec)) of
                    Inr url \<Rightarrow> Inr url
                  | Inl err \<Rightarrow> Inr ''''))
          else Inr '''')"

definition AutoUpdateEnabled :: "package \<Rightarrow> panic + bool" where
  "AutoUpdateEnabled pkg =
     (if pkg \<noteq> NilPackage then
        (case callIsNil pkg of
           Inl p \<Rightarrow> Inl p
         | Inr isNil \<Rightarrow> if \<not> isNil then callAutoUpdatesEnabled pkg else Inr False)
      else Inr False)"

definition IsSuspended :: "package \<Rightarrow> panic + bool" where
  "IsSuspended pkg =
     (if pkg \<noteq> NilPackage then
        (case callIsNil pkg of
           Inl p \<Rightarrow> Inl p
         | Inr isNil \<Rightarrow>
             if \<not> isNil then
               (case callGetSpec pkg of Inl p \<Rightarrow> Inl p | Inr spec \<Rightarrow> Inr (Suspend spec))
             else Inr False)
      else Inr False)"

subsection \<open>Paths, the template file system and \<open>html/template\<close>\<close>

text \<open>\<open>path.Join\<close> on elements that are already clean: the non-empty elements joined
  by a slash.\<close>

fun pathJoin :: "string list \<Rightarrow> string" where
  "pathJoin [] = ''''"
| "pathJoin (x # xs) =
     (if x = '''' then pathJoin xs
      else if pathJoin xs = '''' then x
      else x @ ''/'' @ pathJoin xs)"

definition templatesBaseDir :: string where
  "templatesBaseDir = ''internal/web''"

definition templatesDir :: string where
  "templatesDir = ''templates''"

definition componentsDir :: string where
  "componentsDir = pathJoin [templatesDir, ''components'']"

definition pagesDir :: string where
  "pagesDir = pathJoin [templatesDir, ''pages'']"

text \<open>
  \<open>webFs\<close> is declared elsewhere; it is a parameter: the paths of its files, and for each
  path whether its text parses as a template under a given set of function names.
\<close>

record webfs =
  fsPaths :: "string list"
  fsParses :: "string list \<Rightarrow> string \<Rightarrow> bool"

text \<open>
  \<open>path.Match\<close> for the patterns used here, which are built from literal characters and
  \<open>*\<close>: a star matches any run of characters other than the slash.
\<close>

fun pathMatch :: "string \<Rightarrow> string \<Rightarrow> bool" where
  "pathMatch [] s = (s = [])"
| "pathMatch (c # p) [] = (c = CHR ''*'' \<and> pathMatch p [])"
| "pathMatch (c # p) (d # s) =
     (if c = CHR ''*'' then pathMatch p (d # s) \<or> (d \<noteq> CHR ''/'' \<and> pathMatch (c # p) s)
      else c = d \<and> pathMatch p s)"

text \<open>\<open>fs.Glob\<close>: the files of the file system that match the pattern.\<close>

definition Glob :: "webfs \<Rightarrow> string \<Rightarrow> string list" where
  "Glob fsys pattern = filter (pathMatch pattern) (fsPaths fsys)"

text \<open>
  A template: its name, the names of the functions attached to it, the files parsed
  into it in order, and whether it has executed (after which it can be neither cloned nor
  parsed into).
\<close>

record template =
  tmplName :: string
  tmplFuncs :: "string list"
  tmplFiles :: "string list"
  tmplExecuted :: bool

definition New :: "string \<Rightarrow> template" where
  "New name = \<lparr>tmplName = name, tmplFuncs = [], tmplFiles = [], tmplExecuted = False\<rparr>"

definition Funcs :: "template \<Rightarrow> string list \<Rightarrow> template" where
  "Funcs t funcMap = t\<lparr>tmplFuncs := tmplFuncs t @ funcMap\<rparr>"

definition Clone :: "template \<Rightarrow> go_error + template" where
  "Clone t =
     (if tmplExecuted t then Inl (Err ''html/template: cannot Clone after it has executed'')
      else Inr t)"

text \<open>The first loop of \<open>parseFS\<close>: every pattern must match a file.\<close>

fun globPatterns :: "webfs \<Rightarrow> string list \<Rightarrow> go_error + string list" where
  "globPatterns fsys [] = Inr []"
| "globPatterns fsys (pattern # patterns) =
     (let list = Glob fsys pattern in
      if list = [] then Inl (Err (''template: pattern matches no files: '' @ pattern))
      else
        (case globPatterns fsys patterns of
           Inl e \<Rightarrow> Inl e
         | Inr filenames \<Rightarrow> Inr (list @ filenames)))"

text \<open>The loop of \<open>parseFiles\<close>: each file is parsed into the template's name space.\<close>

fun parseLoop :: "webfs \<Rightarrow> template \<Rightarrow> string list \<Rightarrow> go_error + template" where
  "parseLoop fsys t [] = Inr t"
| "parseLoop fsys t (filename # filenames) =
     (if \<not> fsParses fsys (tmplFuncs t) filename then Inl (Err (''template: '' @ filename))
      else parseLoop fsys (t\<lparr>tmplFiles := tmplFiles t @ [filename]\<rparr>) filenames)"

definition parseFiles :: "webfs \<Rightarrow> template \<Rightarrow> string list \<Rightarrow> go_error + template" where
  "parseFiles fsys t filenames =
     (if tmplExecuted t then Inl (Err ''html/template: cannot Parse after Execute'')
      else if filenames = [] then Inl (Err ''html/template: no files named in call to ParseFiles'')
      else parseLoop fsys t filenames)"

definition ParseFS :: "template \<Rightarrow> webfs \<Rightarrow> string list \<Rightarrow> go_error + template" where
  "ParseFS t fsys patterns =
     (case globPatterns fsys patterns of
        Inl e \<Rightarrow> Inl e
      | Inr filenames \<Rightarrow> parseFiles fsys t filenames)"

definition Must :: "go_error + template \<Rightarrow> panic + template" where
  "Must r = (case r of Inl err \<Rightarrow> Inl (MustFailed err) | Inr t \<Rightarrow> Inr t)"

subsection \<open>The template registry: \<open>parseTemplates\<close>, \<open>pageTmpl\<close>, \<open>componentTmpl\<close>\<close>

text \<open>The struct \<open>templates\<close>. A \<open>*template.Template\<close> field is \<open>None\<close> while it is nil.\<close>

record templates =
  templateFuncs :: "string list"
  baseTemplate :: "template option"
  clusterPkgsPageTemplate :: "template option"
  pkgsPageTmpl :: "template option"
  pkgPageTmpl :: "template option"
  pkgDiscussionPageTmpl :: "template option"
  supportPageTmpl :: "template option"
  bootstrapPageTmpl :: "template option"
  kubeconfigPageTmpl :: "template option"
  settingsPageTmpl :: "template option"
  repositoryPageTmpl :: "template option"
  pkgDetailHeaderTmpl :: "template option"
  pkgConfigInput :: "template option"
  pkgUninstallModalTmpl :: "template option"
  toastTmpl :: "template option"
  datalistTmpl :: "template option"
  pkgDiscussionBadgeTmpl :: "template option"
  yamlModalTmpl :: "template option"
  repoClientset :: repo_clientset

text \<open>Sequencing of steps that may panic.\<close>

definition bindP :: "panic + 'a \<Rightarrow> ('a \<Rightarrow> panic + 'b) \<Rightarrow> panic + 'b" where
  "bindP r f = (case r of Inl p \<Rightarrow> Inl p | Inr x \<Rightarrow> f x)"

text \<open>The keys of the \<open>template.FuncMap\<close> literal; the functions themselves are the
  definitions above and collaborators outside this file.\<close>

definition funcMapKeys :: "string list" where
  "funcMapKeys =
     [''ForClPkgOverviewBtn'', ''ForPkgDetailBtns'', ''ForPkgUpdateAlert'', ''PackageManifestUrl'',
      ''ForToast'', ''ForPkgConfigInput'', ''ForDatalist'', ''IsUpgradable'', ''Markdown'',
      ''Reversed'', ''UrlEscape'', ''IsRepoStatusReady'', ''PackageDetailRefreshId'',
      ''PackageDetailHeaderRefreshId'', ''PackageOverviewRefreshId'',
      ''ClusterPackageOverviewRefreshId'', ''ComponentName'', ''AutoUpdateEnabled'',
      ''IsSuspended'']"

definition pageTmpl :: "webfs \<Rightarrow> templates \<Rightarrow> string \<Rightarrow> panic + template" where
  "pageTmpl webFs t fileName =
     (case baseTemplate t of
        None \<Rightarrow> Inl NilPointerDereference
      | Some base \<Rightarrow>
          bindP (Must (Clone base)) (\<lambda>clone.
            Must (ParseFS clone webFs
                    [pathJoin [pagesDir, fileName], pathJoin [componentsDir, ''*.html'']])))"

definition componentTmpl :: "webfs \<Rightarrow> templates \<Rightarrow> string \<Rightarrow> string list \<Rightarrow> panic + template" where
  "componentTmpl webFs t ident requiredTemplates =
     (let tpls = map (\<lambda>requiredTmpl. pathJoin [componentsDir, requiredTmpl @ ''.html'']) requiredTemplates;
          tpls = tpls @ [pathJoin [componentsDir, ident @ ''.html'']]
      in Must (ParseFS (Funcs (New ident) (templateFuncs t)) webFs tpls))"

definition parseBase :: "webfs \<Rightarrow> templates \<Rightarrow> panic + template" where
  "parseBase webFs t =
     Must (ParseFS (Funcs (New ''base.html'') (templateFuncs t)) webFs
             [pathJoin [templatesDir, ''layout'', ''base.html'']])"

definition parseTemplates :: "webfs \<Rightarrow> templates \<Rightarrow> panic + templates" where
  "parseTemplates webFs t0 =
     (let t = t0\<lparr>templateFuncs := funcMapKeys\<rparr> in
      bindP (parseBase webFs t) (\<lambda>x. let t = t\<lparr>baseTemplate := Some x\<rparr> in
      bindP (pageTmpl webFs t ''clusterpackages.html'') (\<lambda>x. let t = t\<lparr>clusterPkgsPageTemplate := Some x\<rparr> in
      bindP (pageTmpl webFs t ''packages.html'') (\<lambda>x. let t = t\<lparr>pkgsPageTmpl := Some x\<rparr> in
      bindP (pageTmpl webFs t ''package.html'') (\<lambda>x. let t = t\<lparr>pkgPageTmpl := Some x\<rparr> in
      bindP (pageTmpl webFs t ''discussion.html'') (\<lambda>x. let t = t\<lparr>pkgDiscussionPageTmpl := Some x\<rparr> in
      bindP (pageTmpl webFs t ''support.html'') (\<lambda>x. let t = t\<lparr>supportPageTmpl := Some x\<rparr> in
      bindP (pageTmpl webFs t ''bootstrap.html'') (\<lambda>x. let t = t\<lparr>bootstrapPageTmpl := Some x\<rparr> in
      bindP (pageTmpl webFs t ''kubeconfig.html'') (\<lambda>x. let t = t\<lparr>kubeconfigPageTmpl := Some x\<rparr> in
      bindP (pageTmpl webFs t ''settings.html'') (\<lambda>x. let t = t\<lparr>settingsPageTmpl := Some x\<rparr> in
      bindP (pageTmpl webFs t ''repository.html'') (\<lambda>x. let t = t\<lparr>repositoryPageTmpl := Some x\<rparr> in
      bindP (componentTmpl webFs t ''pkg-detail-header'' [''pkg-detail-btns'']) (\<lambda>x. let t = t\<lparr>pkgDetailHeaderTmpl := Some x\<rparr> in
      bindP (componentTmpl webFs t ''pkg-config-input'' [''datalist'']) (\<lambda>x. let t = t\<lparr>pkgConfigInput := Some x\<rparr> in
      bindP (componentTmpl webFs t ''pkg-uninstall-modal'' []) (\<lambda>x. let t = t\<lparr>pkgUninstallModalTmpl := Some x\<rparr> in
      bindP (componentTmpl webFs t ''toast'' []) (\<lambda>x. let t = t\<lparr>toastTmpl := Some x\<rparr> in
      bindP (componentTmpl webFs t ''datalist'' []) (\<lambda>x. let t = t\<lparr>datalistTmpl := Some x\<rparr> in
      bindP (componentTmpl webFs t ''discussion-badge'' []) (\<lambda>x. let t = t\<lparr>pkgDiscussionBadgeTmpl := Some x\<rparr> in
      bindP (componentTmpl webFs t ''yaml-modal'' []) (\<lambda>x. let t = t\<lparr>yamlModalTmpl := Some x\<rparr> in
      Inr t))))))))))))))))))"

subsection \<open>The change watcher: \<open>watchTemplates\<close>\<close>

text \<open>
  \<open>fsnotify\<close> is a parameter: what \<open>NewWatcher()\<close> returns, and what \<open>watcher.Add(dir)\<close>
  returns (or that it panics) for each receiver and directory.
\<close>

datatype watcher = NilWatcher | Watcher

record fsnotify =
  NewWatcher :: "watcher \<times> go_error option"
  Add :: "watcher \<Rightarrow> string \<Rightarrow> panic + go_error option"

text \<open>\<open>multierr.Combine\<close>: nil when every argument is nil, the error itself when one
  argument is not nil, and otherwise the aggregate of the non-nil arguments with nested
  aggregates flattened.\<close>

fun flattenErr :: "go_error \<Rightarrow> go_error list" where
  "flattenErr (MultiErr es) = es"
| "flattenErr e = [e]"

definition Combine :: "go_error option list \<Rightarrow> go_error option" where
  "Combine errors =
     (case List.map_filter (\<lambda>e. e) errors of
        [] \<Rightarrow> None
      | [e] \<Rightarrow> Some e
      | es \<Rightarrow> Some (MultiErr (concat (map flattenErr es))))"

definition watchedDirs :: "string list" where
  "watchedDirs =
     [pathJoin [templatesBaseDir, componentsDir],
      pathJoin [templatesBaseDir, templatesDir, ''layout''],
      pathJoin [templatesBaseDir, pagesDir]]"

text \<open>\<open>watchTemplates\<close> returns the error and starts the goroutine with the event loop
  or not; the second component says whether it did.\<close>

definition watchTemplates :: "fsnotify \<Rightarrow> panic + (go_error option \<times> bool)" where
  "watchTemplates fsn =
     (case NewWatcher fsn of (watcher, err) \<Rightarrow>
        bindP (Add fsn watcher (pathJoin [templatesBaseDir, componentsDir])) (\<lambda>e1.
        bindP (Add fsn watcher (pathJoin [templatesBaseDir, templatesDir, ''layout''])) (\<lambda>e2.
        bindP (Add fsn watcher (pathJoin [templatesBaseDir, pagesDir])) (\<lambda>e3.
          let err = Combine [err, e1, e2, e3] in
          Inr (err, err = None)))))"

text \<open>
  A file system event, and the loop \<open>for range watcher.Events { t.parseTemplates() }\<close>.
  Each element of the channel comes with the state of \<open>webFs\<close> that the recompilation it
  triggers reads. The loop counts its calls of \<open>parseTemplates\<close>.
\<close>

datatype op = Create | Write | Remove | Rename | Chmod

record event =
  evName :: string
  evOp :: op

fun eventLoop :: "(event \<times> webfs) list \<Rightarrow> templates \<Rightarrow> nat \<Rightarrow> panic + (templates \<times> nat)" where
  "eventLoop [] t calls = Inr (t, calls)"
| "eventLoop ((ev, webFs) # events) t calls =
     (case parseTemplates webFs t of
        Inl p \<Rightarrow> Inl p
      | Inr t' \<Rightarrow> eventLoop events t' (Suc calls))"

text \<open>
  The directories whose registration succeeded, \<open>path.Dir\<close> of an event's name, and the
  events that the watcher sends on its channel: those of the registered directories.
\<close>

definition registered :: "fsnotify \<Rightarrow> string list" where
  "registered fsn = filter (\<lambda>dir. Add fsn (fst (NewWatcher fsn)) dir = Inr None) watchedDirs"

definition pathDir :: "string \<Rightarrow> string" where
  "pathDir name = rev (drop 1 (dropWhile (\<lambda>c. c \<noteq> CHR ''/'') (rev name)))"

definition channelEvents :: "fsnotify \<Rightarrow> (event \<times> webfs) list \<Rightarrow> (event \<times> webfs) list" where
  "channelEvents fsn fsEvents =
     filter (\<lambda>(ev, webFs). pathDir (evName ev) \<in> set (registered fsn)) fsEvents"

text \<open>
  The watcher as a whole: \<open>watchTemplates\<close>, then the events of the file system. The
  result is the error \<open>watchTemplates\<close> returned, the registry afterwards and the
  number of recompilations the events triggered.
\<close>

definition watchAndServe ::
  "fsnotify \<Rightarrow> (event \<times> webfs) list \<Rightarrow> templates \<Rightarrow> panic + (go_error option \<times> templates \<times> nat)" where
  "watchAndServe fsn fsEvents t =
     bindP (watchTemplates fsn) (\<lambda>(err, started).
       if started then
         bindP (eventLoop (channelEvents fsn fsEvents) t 0) (\<lambda>(t', calls). Inr (err, t', calls))
       else Inr (err, t, 0))"

subsection \<open>Reference descriptions used in the proofs\<close>

text \<open>
  What the pass is shown to compute: \<open>entered\<close> applies the walker's entry step to every
  node of a tree, and \<open>visits\<close> is the record of a walk that is never cut short: each node
  entered, then its children in order, then the node left.
\<close>

fun entered :: "node \<Rightarrow> node" where
  "entered (Node k a cs) = Node k (fst (transformWalker k a True)) (map entered cs)"

fun visits :: "nat list \<Rightarrow> node \<Rightarrow> visit list"
and visitsList :: "nat list \<Rightarrow> nat \<Rightarrow> node list \<Rightarrow> visit list" where
  "visits p (Node k a cs) = (p, True) # visitsList p 0 cs @ [(p, False)]"
| "visitsList p i [] = []"
| "visitsList p i (c # cs) = visits (p @ [i]) c @ visitsList p (i + 1) cs"

text \<open>A small document and two converters, one whose renderer succeeds and one whose
  renderer fails after writing part of its output.\<close>

definition sampleDoc :: node where
  "sampleDoc =
     Node KindDocument []
       [Node KindParagraph [] [Node KindLink [(''href'', ''https://glasskube.dev'')] [Node KindText [] []],
                               Node KindAutoLink [] []],
        Node KindBlockquote [] [Node KindParagraph [] [Node KindText [] []]]]"

fun sampleParse :: "string \<Rightarrow> node" where
  "sampleParse source = sampleDoc"

fun renderOk :: "string \<Rightarrow> node \<Rightarrow> string \<times> go_error option" where
  "renderOk source doc = (''<p>ok</p>'', None)"

fun renderFails :: "string \<Rightarrow> node \<Rightarrow> string \<times> go_error option" where
  "renderFails source doc = (''<p>partial'', Some (Err ''short write''))"

definition okConverter :: converter where
  "okConverter = \<lparr>parseSource = sampleParse, renderDoc = renderOk\<rparr>"

definition failingConverter :: converter where
  "failingConverter = \<lparr>parseSource = sampleParse, renderDoc = renderFails\<rparr>"

text \<open>
  The assignments of \<open>parseTemplates\<close> as tables: each page field with the file name passed
  to \<open>pageTmpl\<close>, and each component field with the id and the required templates passed
  to \<open>componentTmpl\<close>.
\<close>

definition pageFields :: "((templates \<Rightarrow> template option) \<times> string) list" where
  "pageFields =
     [(clusterPkgsPageTemplate, ''clusterpackages.html''),
      (pkgsPageTmpl, ''packages.html''),
      (pkgPageTmpl, ''package.html''),
      (pkgDiscussionPageTmpl, ''discussion.html''),
      (supportPageTmpl, ''support.html''),
      (bootstrapPageTmpl, ''bootstrap.html''),
      (kubeconfigPageTmpl, ''kubeconfig.html''),
      (settingsPageTmpl, ''settings.html''),
      (repositoryPageTmpl, ''repository.html'')]"

definition componentFields :: "((templates \<Rightarrow> template option) \<times> string \<times> string list) list" where
  "componentFields =
     [(pkgDetailHeaderTmpl, ''pkg-detail-header'', [''pkg-detail-btns'']),
      (pkgConfigInput, ''pkg-config-input'', [''datalist'']),
      (pkgUninstallModalTmpl, ''pkg-uninstall-modal'', []),
      (toastTmpl, ''toast'', []),
      (datalistTmpl, ''datalist'', []),
      (pkgDiscussionBadgeTmpl, ''discussion-badge'', []),
      (yamlModalTmpl, ''yaml-modal'', [])]"

text \<open>A file system that holds every file \<open>parseTemplates\<close> names, all of them well
  formed, and a registry before its first compilation.\<close>

fun parsesAll :: "string list \<Rightarrow> string \<Rightarrow> bool" where
  "parsesAll funcs filename = True"

definition sampleFs :: webfs where
  "sampleFs =
     \<lparr>fsPaths =
        [''templates/components/datalist.html'',
         ''templates/components/discussion-badge.html'',
         ''templates/components/pkg-config-input.html'',
         ''templates/components/pkg-detail-btns.html'',
         ''templates/components/pkg-detail-header.html'',
         ''templates/components/pkg-uninstall-modal.html'',
         ''templates/components/toast.html'',
         ''templates/components/yaml-modal.html'',
         ''templates/layout/base.html'',
         ''templates/pages/bootstrap.html'',
         ''templates/pages/clusterpackages.html'',
         ''templates/pages/discussion.html'',
         ''templates/pages/kubeconfig.html'',
         ''templates/pages/package.html'',
         ''templates/pages/packages.html'',
         ''templates/pages/repository.html'',
         ''templates/pages/settings.html'',
         ''templates/pages/support.html''],
      fsParses = parsesAll\<rparr>"

fun noRepository :: repo_clientset where
  "noRepository pkg name version = Inl (Err ''repository not found'')"

definition emptyRegistry :: templates where
  "emptyRegistry =
     \<lparr>templateFuncs = [], baseTemplate = None, clusterPkgsPageTemplate = None,
      pkgsPageTmpl = None, pkgPageTmpl = None, pkgDiscussionPageTmpl = None,
      supportPageTmpl = None, bootstrapPageTmpl = None, kubeconfigPageTmpl = None,
      settingsPageTmpl = None, repositoryPageTmpl = None, pkgDetailHeaderTmpl = None,
      pkgConfigInput = None, pkgUninstallModalTmpl = None, toastTmpl = None,
      datalistTmpl = None, pkgDiscussionBadgeTmpl = None, yamlModalTmpl = None,
      repoClientset = noRepository\<rparr>"

text \<open>Two watchers: one on which every registration succeeds, and one on which the
  layout directory cannot be registered. Two events of different kinds.\<close>

fun addSucceeds :: "watcher \<Rightarrow> string \<Rightarrow> panic + go_error option" where
  "addSucceeds NilWatcher dir = Inl NilPointerDereference"
| "addSucceeds Watcher dir = Inr None"

fun addLayoutFails :: "watcher \<Rightarrow> string \<Rightarrow> panic + go_error option" where
  "addLayoutFails NilWatcher dir = Inl NilPointerDereference"
| "addLayoutFails Watcher dir =
     (if dir = ''internal/web/templates/layout'' then Inr (Some (Err ''no such file or directory''))
      else Inr None)"

definition healthyWatcher :: fsnotify where
  "healthyWatcher = \<lparr>NewWatcher = (Watcher, None), Add = addSucceeds\<rparr>"

definition layoutMissing :: fsnotify where
  "layoutMissing = \<lparr>NewWatcher = (Watcher, None), Add = addLayoutFails\<rparr>"

definition toastWritten :: event where
  "toastWritten = \<lparr>evName = ''internal/web/templates/components/toast.html'', evOp = Write\<rparr>"

definition supportRemoved :: event where
  "supportRemoved = \<lparr>evName = ''internal/web/templates/pages/support.html'', evOp = Remove\<rparr>"

section \<open>Properties\<close>

subsection \<open>\<open>Reversed\<close>: the loop and its result\<close>

lemma valIndex_update_apart:
  "srcApart val new \<Longrightarrow> valIndex (h[new := l]) val j = valIndex h val j"
  by (cases val) auto

lemma elems_update_apart:
  "srcApart val new \<Longrightarrow> elems (h[new := l]) val = elems h val"
  by (cases val) auto

lemma valIndex_elems:
  "wellFormed h val \<Longrightarrow> j < valLen val \<Longrightarrow> valIndex h val j = Inr (elems h val ! j)"
  by (cases val) auto

lemma length_elems:
  "wellFormed h val \<Longrightarrow> length (elems h val) = valLen val"
  by (cases val) auto

lemma fill_step:
  assumes "i < ln" "length xs = ln" "length es = ln"
  shows "take (ln - Suc i) (rev es) @ drop (ln - Suc i) (xs[ln - Suc i := es ! i])
       = take (ln - i) (rev es) @ drop (ln - i) xs"
proof -
  let ?k = "ln - Suc i"
  have k: "?k < ln" "Suc ?k = ln - i" using assms by auto
  have "drop ?k (xs[?k := es ! i]) = es ! i # drop (Suc ?k) xs"
    using k assms by (simp add: drop_update_cancel Cons_nth_drop_Suc[symmetric] upd_conv_take_nth_drop)
  moreover have "rev es ! ?k = es ! i"
    using assms by (simp add: rev_nth)
  moreover have "take (Suc ?k) (rev es) = take ?k (rev es) @ [rev es ! ?k]"
    using k(1) assms by (intro take_Suc_conv_app_nth) simp
  ultimately show ?thesis using k(2) by simp
qed

lemma reverseLoop_result:
  "new < length h \<Longrightarrow> length (h ! new) = ln \<Longrightarrow> srcApart val new \<Longrightarrow>
   wellFormed h val \<Longrightarrow> valLen val = ln \<Longrightarrow>
   reverseLoop h val new ln i =
     Inr (h[new := take (ln - i) (rev (elems h val)) @ drop (ln - i) (h ! new)])"
proof (induction h val new ln i rule: reverseLoop.induct)
  case (1 h val newVal ln i)
  show ?case
  proof (cases "i < ln")
    case False
    then show ?thesis by (simp add: list_update_same_conv)
  next
    case True
    let ?x = "elems h val ! i"
    let ?h' = "h[newVal := (h ! newVal)[ln - Suc i := ?x]]"
    have ix: "valIndex h val i = Inr ?x"
      using valIndex_elems 1 True by simp
    have st: "sliceStore h newVal 0 ln (ln - i - 1) ?x = Inr ?h'"
      using True by (simp add: sliceStore_def)
    have wf': "wellFormed ?h' val"
      using 1(4,5) by (cases val) (auto simp: nth_list_update)
    have el: "elems ?h' val = elems h val"
      using elems_update_apart 1(4) by simp
    have IH: "reverseLoop ?h' val newVal ln (i + 1) =
        Inr (?h'[newVal := take (ln - (i + 1)) (rev (elems ?h' val)) @ drop (ln - (i + 1)) (?h' ! newVal)])"
      using 1(1)[OF True ix st] 1(2-6) wf' by simp
    have len: "length (elems h val) = ln" using length_elems 1 by simp
    have "reverseLoop h val newVal ln i = reverseLoop ?h' val newVal ln (i + 1)"
      using True ix st by (subst reverseLoop.simps) simp
    also have "\<dots> = Inr (h[newVal := take (ln - i) (rev (elems h val)) @ drop (ln - i) (h ! newVal)])"
      using IH el 1(2,3) fill_step[OF True 1(3) len] by simp
    finally show ?thesis .
  qed
qed


lemma Reversed_sequence:
  assumes wf: "wellFormed h v"
    and k: "typeOfKind v = Inr Kind_Slice \<or> typeOfKind v = Inr Kind_Array"
  shows "Reversed h v = Inr (AnySlice (length h) 0 (valLen v), h @ [rev (elems h v)])"
proof -
  let ?ln = "valLen v"
  let ?h1 = "h @ [replicate ?ln AnyNil]"
  have apart: "srcApart v (length h)" using wf by (cases v) auto
  have wf1: "wellFormed ?h1 v" using wf by (cases v) (auto simp: nth_append)
  have el1: "elems ?h1 v = elems h v" using wf by (cases v) (auto simp: nth_append)
  have len: "length (elems h v) = ?ln" using wf by (rule length_elems)
  have "reverseLoop ?h1 v (length h) ?ln 0 =
      Inr (?h1[length h := take (?ln - 0) (rev (elems ?h1 v)) @ drop (?ln - 0) (?h1 ! length h)])"
    using apart wf1 by (intro reverseLoop_result) simp_all
  then have "reverseLoop ?h1 v (length h) ?ln 0 = Inr (h @ [rev (elems h v)])"
    using el1 len by simp
  then show ?thesis
    using k by (auto simp: Reversed_def makeSlice_def)
qed

lemma Reversed_other:
  "typeOfKind v = Inr k \<Longrightarrow> k \<noteq> Kind_Slice \<Longrightarrow> k \<noteq> Kind_Array \<Longrightarrow> Reversed h v = Inr (v, h)"
  by (simp add: Reversed_def)

text \<open>
  Claim C10. For a slice or array argument, \<open>Reversed\<close> returns a slice over a backing
  array that did not exist before the call, of the length of the argument, whose element
  \<open>i\<close> is element \<open>n - 1 - i\<close> of the argument; every backing array that existed before
  the call is unchanged, and so is the sequence the argument denotes.
\<close>

theorem Reversed_fresh_copy:
  assumes "wellFormed h v"
    and "typeOfKind v = Inr Kind_Slice \<or> typeOfKind v = Inr Kind_Array"
  shows "\<exists>h'. Reversed h v = Inr (AnySlice (length h) 0 (valLen v), h')
            \<and> length h' = Suc (length h)
            \<and> (\<forall>a < length h. h' ! a = h ! a)
            \<and> length (elems h' (AnySlice (length h) 0 (valLen v))) = valLen v
            \<and> (\<forall>i < valLen v.
                  elems h' (AnySlice (length h) 0 (valLen v)) ! i = elems h v ! (valLen v - i - 1))
            \<and> elems h' v = elems h v"
proof -
  let ?h' = "h @ [rev (elems h v)]"
  have len: "length (elems h v) = valLen v" using assms(1) by (rule length_elems)
  have r: "Reversed h v = Inr (AnySlice (length h) 0 (valLen v), ?h')"
    using assms by (rule Reversed_sequence)
  have new: "elems ?h' (AnySlice (length h) 0 (valLen v)) = rev (elems h v)"
    using len by simp
  have old: "elems ?h' v = elems h v"
    using assms(1) by (cases v) (auto simp: nth_append)
  have "\<forall>i < valLen v. rev (elems h v) ! i = elems h v ! (valLen v - i - 1)"
    using len by (simp add: rev_nth)
  then show ?thesis
    using r new old len by (intro exI[of _ ?h']) (simp add: nth_append)
qed

theorem Reversed_fresh_copy_witness:
  "wellFormed [[AnyInt 1, AnyInt 2, AnyInt 3]] (AnySlice 0 0 3)
   \<and> typeOfKind (AnySlice 0 0 3) = Inr Kind_Slice
   \<and> (\<exists>h'. Reversed [[AnyInt 1, AnyInt 2, AnyInt 3]] (AnySlice 0 0 3) = Inr (AnySlice 1 0 3, h')
          \<and> length h' = 2
          \<and> h' ! 0 = [AnyInt 1, AnyInt 2, AnyInt 3]
          \<and> elems h' (AnySlice 1 0 3) ! 0 = AnyInt 3
          \<and> elems h' (AnySlice 0 0 3) = [AnyInt 1, AnyInt 2, AnyInt 3])"
proof -
  have wf: "wellFormed [[AnyInt 1, AnyInt 2, AnyInt 3]] (AnySlice 0 0 3)" by simp
  have k: "typeOfKind (AnySlice 0 0 3) = Inr Kind_Slice \<or> typeOfKind (AnySlice 0 0 3) = Inr Kind_Array"
    by simp
  obtain h' where h': "Reversed [[AnyInt 1, AnyInt 2, AnyInt 3]] (AnySlice 0 0 3) = Inr (AnySlice 1 0 3, h')"
      "length h' = 2" "\<forall>a<1. h' ! a = [[AnyInt 1, AnyInt 2, AnyInt 3]] ! a"
      "\<forall>i<3. elems h' (AnySlice 1 0 3) ! i = elems [[AnyInt 1, AnyInt 2, AnyInt 3]] (AnySlice 0 0 3) ! (3 - i - 1)"
      "elems h' (AnySlice 0 0 3) = elems [[AnyInt 1, AnyInt 2, AnyInt 3]] (AnySlice 0 0 3)"
    using Reversed_fresh_copy[OF wf k] by auto
  have "h' ! 0 = [AnyInt 1, AnyInt 2, AnyInt 3]" using h'(3) by simp
  moreover have "elems h' (AnySlice 1 0 3) ! 0 = AnyInt 3"
    using h'(4)[rule_format, of 0] by simp
  moreover have "elems h' (AnySlice 0 0 3) = [AnyInt 1, AnyInt 2, AnyInt 3]"
    using h'(5) by simp
  ultimately show ?thesis using h'(1,2) by (simp del: elems.simps)
qed

text \<open>
  Claim C3. On a slice or array of length \<open>n\<close>, applying \<open>Reversed\<close> twice succeeds and
  yields a sequence of length \<open>n\<close> that is element-wise equal to the original; on a value of
  any other kind \<open>Reversed\<close> returns the value itself and changes nothing.
\<close>

theorem Reversed_twice:
  "(wellFormed h v \<and> (typeOfKind v = Inr Kind_Slice \<or> typeOfKind v = Inr Kind_Array) \<longrightarrow>
      (\<exists>r1 h1 r2 h2. Reversed h v = Inr (r1, h1) \<and> Reversed h1 r1 = Inr (r2, h2)
          \<and> length (elems h2 r2) = valLen v
          \<and> (\<forall>i < valLen v. elems h2 r2 ! i = elems h v ! i)))
   \<and> (\<forall>k. typeOfKind v = Inr k \<and> k \<noteq> Kind_Slice \<and> k \<noteq> Kind_Array \<longrightarrow>
          Reversed h v = Inr (v, h))"
proof (intro conjI impI allI)
  assume a: "wellFormed h v \<and> (typeOfKind v = Inr Kind_Slice \<or> typeOfKind v = Inr Kind_Array)"
  let ?r1 = "AnySlice (length h) 0 (valLen v)"
  let ?h1 = "h @ [rev (elems h v)]"
  let ?r2 = "AnySlice (length ?h1) 0 (valLen ?r1)"
  let ?h2 = "?h1 @ [rev (elems ?h1 ?r1)]"
  have len: "length (elems h v) = valLen v" using a by (simp add: length_elems)
  have 1: "Reversed h v = Inr (?r1, ?h1)" using a by (simp add: Reversed_sequence)
  have wf1: "wellFormed ?h1 ?r1" using len by simp
  have 2: "Reversed ?h1 ?r1 = Inr (?r2, ?h2)"
    using wf1 by (intro Reversed_sequence) simp_all
  have "elems ?h2 ?r2 = elems h v" using len by (simp add: nth_append)
  then show "\<exists>r1 h1 r2 h2. Reversed h v = Inr (r1, h1) \<and> Reversed h1 r1 = Inr (r2, h2)
          \<and> length (elems h2 r2) = valLen v
          \<and> (\<forall>i < valLen v. elems h2 r2 ! i = elems h v ! i)"
    using 1 2 len by (intro exI[of _ ?r1] exI[of _ ?h1] exI[of _ ?r2] exI[of _ ?h2]) simp
next
  fix k assume "typeOfKind v = Inr k \<and> k \<noteq> Kind_Slice \<and> k \<noteq> Kind_Array"
  then show "Reversed h v = Inr (v, h)" by (simp add: Reversed_other)
qed

theorem Reversed_twice_witness:
  "wellFormed [[AnyInt 1, AnyInt 2]] (AnySlice 0 0 2)
   \<and> typeOfKind (AnySlice 0 0 2) = Inr Kind_Slice
   \<and> (\<exists>r1 h1 r2 h2. Reversed [[AnyInt 1, AnyInt 2]] (AnySlice 0 0 2) = Inr (r1, h1)
          \<and> Reversed h1 r1 = Inr (r2, h2)
          \<and> length (elems h2 r2) = 2
          \<and> elems h2 r2 ! 0 = AnyInt 1 \<and> elems h2 r2 ! 1 = AnyInt 2)
   \<and> typeOfKind (AnyString ''abc'') = Inr Kind_String
   \<and> Reversed [[AnyInt 1, AnyInt 2]] (AnyString ''abc'') = Inr (AnyString ''abc'', [[AnyInt 1, AnyInt 2]])"
proof -
  have a: "wellFormed [[AnyInt 1, AnyInt 2]] (AnySlice 0 0 2)
      \<and> (typeOfKind (AnySlice 0 0 2) = Inr Kind_Slice \<or> typeOfKind (AnySlice 0 0 2) = Inr Kind_Array)"
    by simp
  have b: "typeOfKind (AnyString ''abc'') = Inr Kind_String \<and> Kind_String \<noteq> Kind_Slice \<and> Kind_String \<noteq> Kind_Array"
    by simp
  obtain r1 h1 r2 h2 where r: "Reversed [[AnyInt 1, AnyInt 2]] (AnySlice 0 0 2) = Inr (r1, h1)"
      "Reversed h1 r1 = Inr (r2, h2)" "length (elems h2 r2) = 2"
      "\<forall>i<2. elems h2 r2 ! i = elems [[AnyInt 1, AnyInt 2]] (AnySlice 0 0 2) ! i"
    using Reversed_twice[of "[[AnyInt 1, AnyInt 2]]" "AnySlice 0 0 2"] a by auto
  have "elems h2 r2 ! 0 = AnyInt 1" "elems h2 r2 ! 1 = AnyInt 2"
    using r(4) by simp_all
  moreover have "Reversed [[AnyInt 1, AnyInt 2]] (AnyString ''abc'') = Inr (AnyString ''abc'', [[AnyInt 1, AnyInt 2]])"
    using Reversed_twice[of "[[AnyInt 1, AnyInt 2]]" "AnyString ''abc''"] b by blast
  ultimately show ?thesis using r(1,2,3) by auto
qed

text \<open>
  Claim C9. \<open>Reversed\<close> is not total: on the nil interface \<open>reflect.TypeOf\<close> returns the
  nil type and \<open>Kind()\<close> panics. The identity fallback for values that are not sequences
  holds for every argument other than nil.
\<close>

theorem Reversed_nil_panics:
  "Reversed h AnyNil = Inl NilPointerDereference
   \<and> (v \<noteq> AnyNil \<and> typeOfKind v \<noteq> Inr Kind_Slice \<and> typeOfKind v \<noteq> Inr Kind_Array \<longrightarrow>
        Reversed h v = Inr (v, h))"
  by (cases v) (simp_all add: Reversed_def)

theorem Reversed_nil_panics_witness:
  "Reversed [] AnyNil = Inl NilPointerDereference
   \<and> AnyInt 7 \<noteq> AnyNil \<and> typeOfKind (AnyInt 7) \<noteq> Inr Kind_Slice
   \<and> typeOfKind (AnyInt 7) \<noteq> Inr Kind_Array
   \<and> Reversed [] (AnyInt 7) = Inr (AnyInt 7, [])"
  using Reversed_nil_panics[of "[]" "AnyInt 7"] by simp

subsection \<open>The tree walk of \<open>Transform\<close>\<close>

lemma walk_transform:
  "walkHelper transformWalker p n = (entered n, visits p n, WalkContinue, None)"
  "walkChildren transformWalker p i cs = (map entered cs, visitsList p i cs, None)"
proof (induction p n and p i cs rule: visits_visitsList.induct)
  case (1 p k a cs)
  define A where "A = fst (transformWalker k a True)"
  have e1: "transformWalker k a True = (A, WalkContinue, None)"
    by (simp add: A_def transformWalker_def)
  have e2: "transformWalker k A False = (A, WalkContinue, None)"
    by (simp add: transformWalker_def)
  have "walkHelper transformWalker p (Node k a cs) =
      (Node k A (map entered cs), (p, True) # visitsList p 0 cs @ [(p, False)], WalkContinue, None)"
    by (simp add: e1 e2 1)
  then show ?case by (simp add: A_def)
next
  case (2 p i)
  show ?case by simp
next
  case (3 p i c cs)
  then show ?case by simp
qed


lemma entries_visits:
  "entries (visits p n) = positions p n"
  "entries (visitsList p i cs) = positionsList p i cs"
  by (induction p n and p i cs rule: visits_visitsList.induct) (simp_all add: entries_def)

lemma positions_extend:
  "q \<in> set (positions p n) \<Longrightarrow> \<exists>r. q = p @ r"
  "q \<in> set (positionsList p i cs) \<Longrightarrow> \<exists>j r. i \<le> j \<and> q = p @ j # r"
proof (induction p n and p i cs arbitrary: q and q rule: positions_positionsList.induct)
  case (1 p k a cs)
  then show ?case by fastforce
next
  case (2 p i)
  then show ?case by simp
next
  case (3 p i c cs)
  from 3(3) consider "q \<in> set (positions (p @ [i]) c)" | "q \<in> set (positionsList p (i + 1) cs)"
    by auto
  then show ?case
  proof cases
    case 1
    then obtain r where "q = (p @ [i]) @ r" using 3(1) by blast
    then show ?thesis by auto
  next
    case 2
    then obtain j r where "i + 1 \<le> j" "q = p @ j # r" using 3(2) by blast
    then show ?thesis by (intro exI[of _ j] exI[of _ r]) simp
  qed
qed

lemma distinct_positions:
  "distinct (positions p n)"
  "distinct (positionsList p i cs)"
proof (induction p n and p i cs rule: positions_positionsList.induct)
  case (1 p k a cs)
  have "p \<notin> set (positionsList p 0 cs)"
    using positions_extend(2)[of p p 0 cs] by auto
  then show ?case using 1 by simp
next
  case (2 p i)
  show ?case by simp
next
  case (3 p i c cs)
  have "set (positions (p @ [i]) c) \<inter> set (positionsList p (i + 1) cs) = {}"
  proof (rule ccontr)
    assume "\<not> ?thesis"
    then obtain q where q: "q \<in> set (positions (p @ [i]) c)" "q \<in> set (positionsList p (i + 1) cs)"
      by auto
    from positions_extend(1)[OF q(1)] obtain r where r: "q = (p @ [i]) @ r" by blast
    from positions_extend(2)[OF q(2)] obtain j r' where j: "i + 1 \<le> j" "q = p @ j # r'" by blast
    from r j show False by simp
  qed
  then show ?case using 3 by simp
qed

lemma nodeAt_positions:
  "(q \<in> set (positions p n)) = (\<exists>r. q = p @ r \<and> nodeAt n r \<noteq> None)"
  "(q \<in> set (positionsList p i cs)) = (\<exists>j r. j < length cs \<and> q = p @ (i + j) # r \<and> nodeAt (cs ! j) r \<noteq> None)"
proof (induction p n and p i cs arbitrary: q and q rule: positions_positionsList.induct)
  case (1 p k a cs)
  show ?case
  proof
    assume "q \<in> set (positions p (Node k a cs))"
    then consider "q = p" | "q \<in> set (positionsList p 0 cs)" by auto
    then show "\<exists>r. q = p @ r \<and> nodeAt (Node k a cs) r \<noteq> None"
    proof cases
      case 1
      then show ?thesis by (intro exI[of _ "[]"]) simp
    next
      case 2
      then obtain j r where "j < length cs" "q = p @ (0 + j) # r" "nodeAt (cs ! j) r \<noteq> None"
        using 1 by blast
      then show ?thesis by (intro exI[of _ "j # r"]) simp
    qed
  next
    assume "\<exists>r. q = p @ r \<and> nodeAt (Node k a cs) r \<noteq> None"
    then obtain r where r: "q = p @ r" "nodeAt (Node k a cs) r \<noteq> None" by blast
    show "q \<in> set (positions p (Node k a cs))"
    proof (cases r)
      case Nil
      then show ?thesis using r by simp
    next
      case (Cons j r')
      then have "j < length cs" "nodeAt (cs ! j) r' \<noteq> None"
        using r(2) by (auto split: if_splits)
      then have "q \<in> set (positionsList p 0 cs)"
        using 1[of q] r(1) Cons by auto
      then show ?thesis by simp
    qed
  qed
next
  case (2 p i)
  show ?case by simp
next
  case (3 p i c cs)
  show ?case
  proof
    assume "q \<in> set (positionsList p i (c # cs))"
    then consider "q \<in> set (positions (p @ [i]) c)" | "q \<in> set (positionsList p (i + 1) cs)"
      by auto
    then show "\<exists>j r. j < length (c # cs) \<and> q = p @ (i + j) # r \<and> nodeAt ((c # cs) ! j) r \<noteq> None"
    proof cases
      case 1
      then obtain r where "q = (p @ [i]) @ r" "nodeAt c r \<noteq> None" using 3(1) by blast
      then show ?thesis by (intro exI[of _ 0] exI[of _ r]) simp
    next
      case 2
      then obtain j r where "j < length cs" "q = p @ (i + 1 + j) # r" "nodeAt (cs ! j) r \<noteq> None"
        using 3(2) by blast
      then show ?thesis by (intro exI[of _ "Suc j"] exI[of _ r]) simp
    qed
  next
    assume "\<exists>j r. j < length (c # cs) \<and> q = p @ (i + j) # r \<and> nodeAt ((c # cs) ! j) r \<noteq> None"
    then obtain j r where jr: "j < length (c # cs)" "q = p @ (i + j) # r" "nodeAt ((c # cs) ! j) r \<noteq> None"
      by blast
    show "q \<in> set (positionsList p i (c # cs))"
    proof (cases j)
      case 0
      then have "q \<in> set (positions (p @ [i]) c)" using jr 3(1)[of q] by simp
      then show ?thesis by simp
    next
      case (Suc j')
      then have "j' < length cs \<and> q = p @ (i + 1 + j') # r \<and> nodeAt (cs ! j') r \<noteq> None"
        using jr by simp
      then have "q \<in> set (positionsList p (i + 1) cs)" using 3(2)[of q] by blast
      then show ?thesis by simp
    qed
  qed
qed

lemma nodeAt_entered:
  "nodeAt (entered n) q = map_option entered (nodeAt n q)"
proof (induction q arbitrary: n)
  case Nil
  show ?case by simp
next
  case (Cons i q)
  show ?case by (cases n) (simp add: Cons)
qed

lemma AttributeString_set_same:
  "AttributeString (SetAttributeString a name v) name = Some v"
  by (induction a name v rule: SetAttributeString.induct) auto

lemma AttributeString_set_other:
  "name' \<noteq> name \<Longrightarrow> AttributeString (SetAttributeString a name v) name' = AttributeString a name'"
  by (induction a name v rule: SetAttributeString.induct) auto

lemma Transform_entered: "Transform doc = entered doc"
  by (simp add: Transform_def Walk_def walk_transform)

lemma TransformVisits_visits: "TransformVisits doc = visits [] doc"
  by (simp add: TransformVisits_def Walk_def walk_transform)

lemma Transform_pass:
  "entries (TransformVisits doc) = positions [] doc"
  "distinct (positions [] doc)"
  "(q \<in> set (positions [] doc)) = (nodeAt doc q \<noteq> None)"
  "nodeAt doc q = None \<Longrightarrow> nodeAt (Transform doc) q = None"
  "nodeAt doc q = Some (Node k a cs) \<Longrightarrow>
     \<exists>a' cs'. nodeAt (Transform doc) q = Some (Node k a' cs') \<and> length cs' = length cs
       \<and> (k = KindLink \<longrightarrow> AttributeString a' ''target'' = Some ''_blank''
                        \<and> AttributeString a' ''rel'' = Some ''noopener noreferrer'')
       \<and> (k = KindBlockquote \<longrightarrow>
             AttributeString a' ''class'' = Some ''border-start border-primary border-3 ps-2'')
       \<and> (k \<noteq> KindLink \<and> k \<noteq> KindBlockquote \<longrightarrow> a' = a)"
proof -
  show "entries (TransformVisits doc) = positions [] doc"
    by (simp add: TransformVisits_visits entries_visits)
  show "distinct (positions [] doc)" by (rule distinct_positions)
  show "(q \<in> set (positions [] doc)) = (nodeAt doc q \<noteq> None)"
    by (simp add: nodeAt_positions(1))
  show "nodeAt doc q = None \<Longrightarrow> nodeAt (Transform doc) q = None"
    by (simp add: Transform_entered nodeAt_entered)
  assume n: "nodeAt doc q = Some (Node k a cs)"
  let ?a' = "fst (transformWalker k a True)"
  have "nodeAt (Transform doc) q = Some (Node k ?a' (map entered cs))"
    using n by (simp add: Transform_entered nodeAt_entered)
  moreover have "k = KindLink \<longrightarrow> AttributeString ?a' ''target'' = Some ''_blank''
                        \<and> AttributeString ?a' ''rel'' = Some ''noopener noreferrer''"
    by (simp add: transformWalker_def AttributeString_set_same AttributeString_set_other)
  moreover have "k = KindBlockquote \<longrightarrow>
             AttributeString ?a' ''class'' = Some ''border-start border-primary border-3 ps-2''"
    by (simp add: transformWalker_def AttributeString_set_same)
  moreover have "k \<noteq> KindLink \<and> k \<noteq> KindBlockquote \<longrightarrow> ?a' = a"
    by (cases k) (simp_all add: transformWalker_def)
  ultimately show "\<exists>a' cs'. nodeAt (Transform doc) q = Some (Node k a' cs') \<and> length cs' = length cs
       \<and> (k = KindLink \<longrightarrow> AttributeString a' ''target'' = Some ''_blank''
                        \<and> AttributeString a' ''rel'' = Some ''noopener noreferrer'')
       \<and> (k = KindBlockquote \<longrightarrow>
             AttributeString a' ''class'' = Some ''border-start border-primary border-3 ps-2'')
       \<and> (k \<noteq> KindLink \<and> k \<noteq> KindBlockquote \<longrightarrow> a' = a)"
    by (intro exI[of _ ?a'] exI[of _ "map entered cs"]) simp
qed

text \<open>
  Claim C1. For every source whose conversion succeeds, \<open>Markdown\<close> returns what the
  renderer wrote for the transformed document, and the pass over the parsed document
  calls the walker on entry at every node exactly once, in document order: every
  \<open>Link\<close> node then carries \<open>target="_blank"\<close> and \<open>rel="noopener noreferrer"\<close>, every
  \<open>Blockquote\<close> node carries the class \<open>border-start border-primary border-3 ps-2\<close>, and a
  node of any other kind (\<open>AutoLink\<close> among them) keeps its attributes; the shape of the
  tree is unchanged.
\<close>

theorem Markdown_transform_pass:
  assumes "Convert c source = (buf, None)"
  shows "Markdown c source = buf
    \<and> buf = fst (renderDoc c source (Transform (parseSource c source)))
    \<and> entries (TransformVisits (parseSource c source)) = positions [] (parseSource c source)
    \<and> distinct (positions [] (parseSource c source))
    \<and> (\<forall>q. (q \<in> set (positions [] (parseSource c source))) = (nodeAt (parseSource c source) q \<noteq> None))
    \<and> (\<forall>q. nodeAt (parseSource c source) q = None \<longrightarrow>
            nodeAt (Transform (parseSource c source)) q = None)
    \<and> (\<forall>q k a cs. nodeAt (parseSource c source) q = Some (Node k a cs) \<longrightarrow>
          (\<exists>a' cs'. nodeAt (Transform (parseSource c source)) q = Some (Node k a' cs')
             \<and> length cs' = length cs
             \<and> (k = KindLink \<longrightarrow> AttributeString a' ''target'' = Some ''_blank''
                              \<and> AttributeString a' ''rel'' = Some ''noopener noreferrer'')
             \<and> (k = KindBlockquote \<longrightarrow>
                   AttributeString a' ''class'' = Some ''border-start border-primary border-3 ps-2'')
             \<and> (k \<noteq> KindLink \<and> k \<noteq> KindBlockquote \<longrightarrow> a' = a)))"
proof (intro conjI allI impI)
  show "Markdown c source = buf" using assms by (simp add: Markdown_def)
  show "buf = fst (renderDoc c source (Transform (parseSource c source)))"
    using assms by (simp add: Convert_def)
  show "entries (TransformVisits (parseSource c source)) = positions [] (parseSource c source)"
    by (rule Transform_pass(1))
  show "distinct (positions [] (parseSource c source))"
    by (rule Transform_pass(2))
  show "(q \<in> set (positions [] (parseSource c source))) = (nodeAt (parseSource c source) q \<noteq> None)" for q
    by (rule Transform_pass(3))
  show "nodeAt (Transform (parseSource c source)) q = None"
    if "nodeAt (parseSource c source) q = None" for q
    using that by (rule Transform_pass(4))
  show "\<exists>a' cs'. nodeAt (Transform (parseSource c source)) q = Some (Node k a' cs')
             \<and> length cs' = length cs
             \<and> (k = KindLink \<longrightarrow> AttributeString a' ''target'' = Some ''_blank''
                              \<and> AttributeString a' ''rel'' = Some ''noopener noreferrer'')
             \<and> (k = KindBlockquote \<longrightarrow>
                   AttributeString a' ''class'' = Some ''border-start border-primary border-3 ps-2'')
             \<and> (k \<noteq> KindLink \<and> k \<noteq> KindBlockquote \<longrightarrow> a' = a)"
    if "nodeAt (parseSource c source) q = Some (Node k a cs)" for q k a cs
    using that by (rule Transform_pass(5))
qed

theorem Markdown_transform_pass_witness:
  "Convert okConverter ''> [a](b)'' = (''<p>ok</p>'', None)
   \<and> Markdown okConverter ''> [a](b)'' = ''<p>ok</p>''
   \<and> entries (TransformVisits sampleDoc) = [[], [0], [0, 0], [0, 0, 0], [0, 1], [1], [1, 0], [1, 0, 0]]
   \<and> nodeAt sampleDoc [0, 0] = Some (Node KindLink [(''href'', ''https://glasskube.dev'')] [Node KindText [] []])
   \<and> (\<exists>a' cs'. nodeAt (Transform sampleDoc) [0, 0] = Some (Node KindLink a' cs')
         \<and> AttributeString a' ''target'' = Some ''_blank''
         \<and> AttributeString a' ''rel'' = Some ''noopener noreferrer'')"
proof -
  have c: "Convert okConverter ''> [a](b)'' = (''<p>ok</p>'', None)"
    by (simp add: Convert_def okConverter_def)
  have p: "parseSource okConverter ''> [a](b)'' = sampleDoc"
    by (simp add: okConverter_def)
  have n: "nodeAt sampleDoc [0, 0] = Some (Node KindLink [(''href'', ''https://glasskube.dev'')] [Node KindText [] []])"
    by (simp add: sampleDoc_def)
  have e: "positions [] sampleDoc = [[], [0], [0, 0], [0, 0, 0], [0, 1], [1], [1, 0], [1, 0, 0]]"
    by (simp add: sampleDoc_def)
  note t = Markdown_transform_pass[OF c, unfolded p]
  have m: "Markdown okConverter ''> [a](b)'' = ''<p>ok</p>''" using t by (rule conjunct1)
  have v: "entries (TransformVisits sampleDoc) = positions [] sampleDoc"
    using t by blast
  have "\<forall>q k a cs. nodeAt sampleDoc q = Some (Node k a cs) \<longrightarrow>
          (\<exists>a' cs'. nodeAt (Transform sampleDoc) q = Some (Node k a' cs')
             \<and> length cs' = length cs
             \<and> (k = KindLink \<longrightarrow> AttributeString a' ''target'' = Some ''_blank''
                              \<and> AttributeString a' ''rel'' = Some ''noopener noreferrer'')
             \<and> (k = KindBlockquote \<longrightarrow>
                   AttributeString a' ''class'' = Some ''border-start border-primary border-3 ps-2'')
             \<and> (k \<noteq> KindLink \<and> k \<noteq> KindBlockquote \<longrightarrow> a' = a))"
    using t by (elim conjE)
  from this[rule_format, OF n]
  have l: "\<exists>a' cs'. nodeAt (Transform sampleDoc) [0, 0] = Some (Node KindLink a' cs')
         \<and> AttributeString a' ''target'' = Some ''_blank''
         \<and> AttributeString a' ''rel'' = Some ''noopener noreferrer''"
    by blast
  show ?thesis using c m v e n l by (simp only: simp_thms)
qed

subsection \<open>\<open>Markdown\<close>: the fallback\<close>

text \<open>
  Claim C2. When the conversion returns an error, \<open>Markdown\<close> returns the source text
  between \<open><p>\<close> and \<open></p>\<close>, unescaped and without what the renderer wrote; it
  returns a value in every case and passes no error on.
\<close>

theorem Markdown_fallback:
  assumes "Convert c source = (buf, Some err)"
  shows "Markdown c source = ''<p>'' @ source @ ''</p>''"
  using assms by (simp add: Markdown_def)

theorem Markdown_fallback_witness:
  "Convert failingConverter ''a <b> & [c](d)'' = (''<p>partial'', Some (Err ''short write''))
   \<and> Markdown failingConverter ''a <b> & [c](d)'' = ''<p>a <b> & [c](d)</p>''"
proof -
  have c: "Convert failingConverter ''a <b> & [c](d)'' = (''<p>partial'', Some (Err ''short write''))"
    by (simp add: Convert_def failingConverter_def)
  show ?thesis using Markdown_fallback[OF c] c by simp
qed

subsection \<open>Helpers that take a package handle\<close>

lemma AutoUpdateEnabled_nil:
  "AutoUpdateEnabled NilPackage = Inr False"
  "IsNil m \<Longrightarrow> AutoUpdateEnabled (Package m) = Inr False"
  by (simp_all add: AutoUpdateEnabled_def)

lemma IsSuspended_nil:
  "IsSuspended NilPackage = Inr False"
  "IsNil m \<Longrightarrow> IsSuspended (Package m) = Inr False"
  by (simp_all add: IsSuspended_def)

lemma PackageManifestUrl_defaults:
  "IsNil m \<Longrightarrow> PackageManifestUrl repo (Package m) = Inr ''''"
  "\<not> IsNil m \<Longrightarrow>
     repo (Package m) (Name (PackageInfo (GetSpec m))) (Version (PackageInfo (GetSpec m))) = Inl err \<Longrightarrow>
     PackageManifestUrl repo (Package m) = Inr ''''"
  by (simp_all add: PackageManifestUrl_def)

text \<open>
  Claim C6. \<open>AutoUpdateEnabled\<close> and \<open>IsSuspended\<close> test \<open>pkg != nil\<close> before they call
  \<open>IsNil\<close> and return false on the nil interface. \<open>PackageManifestUrl\<close> calls \<open>IsNil\<close>
  without that test: on the nil interface it panics instead of returning the empty
  string.
\<close>

theorem PackageManifestUrl_nil_interface_panics:
  "PackageManifestUrl repo NilPackage = Inl NilPointerDereference
   \<and> AutoUpdateEnabled NilPackage = Inr False
   \<and> IsSuspended NilPackage = Inr False"
  by (simp add: PackageManifestUrl_def AutoUpdateEnabled_def IsSuspended_def)

subsection \<open>The change watcher\<close>

lemma Combine_None_iff:
  "(Combine errors = None) = (\<forall>e \<in> set errors. e = None)"
proof -
  have "(List.map_filter (\<lambda>e. e) errors = []) = (\<forall>e \<in> set errors. e = None)"
    by (induction errors) (auto simp: List.map_filter_simps split: option.splits)
  then show ?thesis
    by (auto simp: Combine_def split: list.splits)
qed

lemma bindP_Inr:
  "bindP r f = Inr y \<Longrightarrow> \<exists>x. r = Inr x \<and> f x = Inr y"
  by (cases r) (simp_all add: bindP_def)

text \<open>
  Claim C4, as the code has it. When \<open>watchTemplates\<close> returns and the registration of at
  least one watched directory failed, the value returned is the combination of the
  errors of \<open>NewWatcher\<close> and of the three registrations and is not nil, and the event
  loop is not started: whatever events the file system produces, no recompilation runs
  and the registry stays as it was.
\<close>

theorem watchTemplates_failure_stops_watching:
  assumes w: "watchTemplates fsn = Inr (err, started)"
    and f: "\<exists>dir \<in> set watchedDirs. Add fsn (fst (NewWatcher fsn)) dir \<noteq> Inr None"
  shows "(\<exists>e1 e2 e3.
            Add fsn (fst (NewWatcher fsn)) (watchedDirs ! 0) = Inr e1
          \<and> Add fsn (fst (NewWatcher fsn)) (watchedDirs ! 1) = Inr e2
          \<and> Add fsn (fst (NewWatcher fsn)) (watchedDirs ! 2) = Inr e3
          \<and> err = Combine [snd (NewWatcher fsn), e1, e2, e3])
       \<and> err \<noteq> None \<and> \<not> started
       \<and> (\<forall>fsEvents t. watchAndServe fsn fsEvents t = Inr (err, t, 0))"
proof -
  obtain wt e0 where nw: "NewWatcher fsn = (wt, e0)" by (cases "NewWatcher fsn")
  from w nw obtain e1 e2 e3 where
    a: "Add fsn wt (watchedDirs ! 0) = Inr e1" "Add fsn wt (watchedDirs ! 1) = Inr e2"
       "Add fsn wt (watchedDirs ! 2) = Inr e3"
    and r: "err = Combine [e0, e1, e2, e3]" "started = (Combine [e0, e1, e2, e3] = None)"
    by (auto simp: watchTemplates_def watchedDirs_def Let_def dest!: bindP_Inr)
  from f nw a have "e1 \<noteq> None \<or> e2 \<noteq> None \<or> e3 \<noteq> None"
    by (auto simp: watchedDirs_def)
  then have ne: "Combine [e0, e1, e2, e3] \<noteq> None"
    by (auto simp: Combine_None_iff)
  have "watchAndServe fsn fsEvents t = Inr (err, t, 0)" for fsEvents t
    using w r ne by (simp add: watchAndServe_def bindP_def)
  then show ?thesis using nw a r ne by auto
qed

theorem watchTemplates_failure_stops_watching_witness:
  "watchTemplates layoutMissing = Inr (Some (Err ''no such file or directory''), False)
   \<and> (\<exists>dir \<in> set watchedDirs. Add layoutMissing (fst (NewWatcher layoutMissing)) dir \<noteq> Inr None)
   \<and> watchAndServe layoutMissing [(toastWritten, sampleFs)] emptyRegistry =
       Inr (Some (Err ''no such file or directory''), emptyRegistry, 0)"
proof -
  have w: "watchTemplates layoutMissing = Inr (Some (Err ''no such file or directory''), False)"
    by (simp add: watchTemplates_def layoutMissing_def bindP_def Combine_def List.map_filter_simps
        templatesBaseDir_def templatesDir_def componentsDir_def pagesDir_def)
  have f: "\<exists>dir \<in> set watchedDirs. Add layoutMissing (fst (NewWatcher layoutMissing)) dir \<noteq> Inr None"
    by (simp add: watchedDirs_def layoutMissing_def
        templatesBaseDir_def templatesDir_def componentsDir_def pagesDir_def)
  show ?thesis using watchTemplates_failure_stops_watching[OF w f] w f by blast
qed

text \<open>
  Claim C4, as stated, fails: with the layout directory missing, the components directory
  is registered, the watcher sends the event of a write to \<open>toast.html\<close> on its channel,
  and no recompilation runs.
\<close>

theorem registered_directory_event_ignored:
  "Add layoutMissing (fst (NewWatcher layoutMissing)) ''internal/web/templates/components'' = Inr None
   \<and> Add layoutMissing (fst (NewWatcher layoutMissing)) ''internal/web/templates/layout'' \<noteq> Inr None
   \<and> registered layoutMissing = [''internal/web/templates/components'', ''internal/web/templates/pages'']
   \<and> pathDir (evName toastWritten) = ''internal/web/templates/components''
   \<and> channelEvents layoutMissing [(toastWritten, sampleFs)] = [(toastWritten, sampleFs)]
   \<and> watchAndServe layoutMissing [(toastWritten, sampleFs)] emptyRegistry =
       Inr (Some (Err ''no such file or directory''), emptyRegistry, 0)"
proof -
  have r: "registered layoutMissing = [''internal/web/templates/components'', ''internal/web/templates/pages'']"
    by (simp add: registered_def watchedDirs_def layoutMissing_def
        templatesBaseDir_def templatesDir_def componentsDir_def pagesDir_def)
  have d: "pathDir (evName toastWritten) = ''internal/web/templates/components''"
    by (simp add: pathDir_def toastWritten_def)
  have c: "channelEvents layoutMissing [(toastWritten, sampleFs)] = [(toastWritten, sampleFs)]"
    by (simp add: channelEvents_def r d)
  have w: "watchTemplates layoutMissing = Inr (Some (Err ''no such file or directory''), False)"
    by (simp add: watchTemplates_def layoutMissing_def bindP_def Combine_def List.map_filter_simps
        templatesBaseDir_def templatesDir_def componentsDir_def pagesDir_def)
  have s: "watchAndServe layoutMissing [(toastWritten, sampleFs)] emptyRegistry =
       Inr (Some (Err ''no such file or directory''), emptyRegistry, 0)"
    by (simp add: watchAndServe_def w bindP_def)
  show ?thesis using r d c s by (simp add: layoutMissing_def)
qed

subsection \<open>Globbing and parsing into a template\<close>

lemma pathMatch_literal:
  "CHR ''*'' \<notin> set p \<Longrightarrow> pathMatch p s = (s = p)"
  by (induction p s rule: pathMatch.induct) auto

lemma pathMatch_star:
  "CHR ''*'' \<notin> set suf \<Longrightarrow>
   pathMatch (CHR ''*'' # suf) s = (\<exists>n. s = n @ suf \<and> CHR ''/'' \<notin> set n)"
proof (induction s)
  case Nil
  then show ?case by (auto simp: pathMatch_literal)
next
  case (Cons d s)
  show ?case
  proof
    assume "pathMatch (CHR ''*'' # suf) (d # s)"
    then consider "pathMatch suf (d # s)" | "d \<noteq> CHR ''/''" "pathMatch (CHR ''*'' # suf) s"
      by auto
    then show "\<exists>n. d # s = n @ suf \<and> CHR ''/'' \<notin> set n"
    proof cases
      case 1
      then have "d # s = suf" using Cons.prems by (simp add: pathMatch_literal)
      then show ?thesis by (intro exI[of _ "[]"]) simp
    next
      case 2
      then obtain n where "s = n @ suf" "CHR ''/'' \<notin> set n" using Cons by blast
      then show ?thesis using 2(1) by (intro exI[of _ "d # n"]) simp
    qed
  next
    assume "\<exists>n. d # s = n @ suf \<and> CHR ''/'' \<notin> set n"
    then obtain n where n: "d # s = n @ suf" "CHR ''/'' \<notin> set n" by blast
    show "pathMatch (CHR ''*'' # suf) (d # s)"
    proof (cases n)
      case Nil
      then have "pathMatch suf (d # s)" using n Cons.prems by (simp add: pathMatch_literal)
      then show ?thesis by simp
    next
      case (Cons d' n')
      then have "d = d'" "s = n' @ suf" "CHR ''/'' \<notin> set n'" "d \<noteq> CHR ''/''"
        using n by auto
      then have "pathMatch (CHR ''*'' # suf) s" using Cons.IH Cons.prems by blast
      then show ?thesis using \<open>d \<noteq> CHR ''/''\<close> by simp
    qed
  qed
qed

lemma pathMatch_prefix_star:
  "CHR ''*'' \<notin> set pre \<Longrightarrow> CHR ''*'' \<notin> set suf \<Longrightarrow>
   pathMatch (pre @ CHR ''*'' # suf) s = (\<exists>n. s = pre @ n @ suf \<and> CHR ''/'' \<notin> set n)"
proof (induction pre arbitrary: s)
  case Nil
  then show ?case by (simp add: pathMatch_star)
next
  case (Cons c pre)
  show ?case
  proof (cases s)
    case Nil
    then show ?thesis using Cons.prems by auto
  next
    case (Cons d s')
    then show ?thesis using Cons.IH[of s'] Cons.prems by auto
  qed
qed

lemma filter_eq_distinct:
  "p \<in> set xs \<Longrightarrow> distinct xs \<Longrightarrow> filter (\<lambda>s. s = p) xs = [p]"
  by (induction xs) (auto simp: filter_empty_conv)

lemma Glob_literal:
  "CHR ''*'' \<notin> set p \<Longrightarrow> distinct (fsPaths fsys) \<Longrightarrow> Glob fsys p \<noteq> [] \<Longrightarrow> Glob fsys p = [p]"
proof -
  assume a: "CHR ''*'' \<notin> set p" "distinct (fsPaths fsys)" "Glob fsys p \<noteq> []"
  have "pathMatch p = (\<lambda>s. s = p)"
    using a(1) by (intro ext) (simp add: pathMatch_literal)
  then have g: "Glob fsys p = filter (\<lambda>s. s = p) (fsPaths fsys)"
    by (simp add: Glob_def)
  have "p \<in> set (fsPaths fsys)" using a(3) g by (auto simp: filter_empty_conv)
  then show ?thesis using a(2) g by (simp add: filter_eq_distinct)
qed

lemma Glob_components:
  "Glob fsys ''templates/components/*.html'' =
     filter (\<lambda>f. \<exists>n. f = ''templates/components/'' @ n @ ''.html'' \<and> CHR ''/'' \<notin> set n) (fsPaths fsys)"
proof -
  have "pathMatch (''templates/components/'' @ CHR ''*'' # ''.html'') s =
      (\<exists>n. s = ''templates/components/'' @ n @ ''.html'' \<and> CHR ''/'' \<notin> set n)" for s
    by (rule pathMatch_prefix_star) simp_all
  then have "pathMatch ''templates/components/*.html'' =
      (\<lambda>s. \<exists>n. s = ''templates/components/'' @ n @ ''.html'' \<and> CHR ''/'' \<notin> set n)"
    by (intro ext) simp
  then show ?thesis unfolding Glob_def by (rule arg_cong)
qed

lemma parseLoop_files:
  "parseLoop fsys t filenames = Inr t' \<Longrightarrow> t' = t\<lparr>tmplFiles := tmplFiles t @ filenames\<rparr>"
proof (induction filenames arbitrary: t)
  case Nil
  then show ?case by simp
next
  case (Cons a filenames)
  from Cons.prems have "parseLoop fsys (t\<lparr>tmplFiles := tmplFiles t @ [a]\<rparr>) filenames = Inr t'"
    by (simp split: if_splits)
  from Cons.IH[OF this] show ?case by simp
qed

lemma globPatterns_files:
  "globPatterns fsys patterns = Inr filenames \<Longrightarrow>
     filenames = concat (map (Glob fsys) patterns) \<and> (\<forall>p \<in> set patterns. Glob fsys p \<noteq> [])"
  by (induction patterns arbitrary: filenames) (auto simp: Let_def split: if_splits sum.splits)

lemma ParseFS_files:
  "ParseFS t fsys patterns = Inr t' \<Longrightarrow>
     t' = t\<lparr>tmplFiles := tmplFiles t @ concat (map (Glob fsys) patterns)\<rparr>
     \<and> (\<forall>p \<in> set patterns. Glob fsys p \<noteq> [])"
  by (auto simp: ParseFS_def parseFiles_def split: sum.splits if_splits
      dest!: globPatterns_files parseLoop_files)

lemma Must_Inr: "Must r = Inr t \<Longrightarrow> r = Inr t"
  by (cases r) (simp_all add: Must_def)

lemma bindP_InrE:
  assumes "bindP r f = Inr y"
  obtains x where "r = Inr x" "f x = Inr y"
  using assms by (cases r) (simp_all add: bindP_def)

lemma no_star_page: "CHR ''*'' \<notin> set fileName \<Longrightarrow> CHR ''*'' \<notin> set (pathJoin [pagesDir, fileName])"
  by (auto simp: pagesDir_def templatesDir_def)

lemma pathJoin_page: "pathJoin [pagesDir, fileName] = (if fileName = '''' then ''templates/pages'' else ''templates/pages/'' @ fileName)"
  by (simp add: pagesDir_def templatesDir_def)

lemma pathJoin_component: "pathJoin [componentsDir, n @ ''.html''] = ''templates/components/'' @ n @ ''.html''"
  by (simp add: componentsDir_def templatesDir_def)

lemma pageTmpl_result:
  assumes "pageTmpl webFs t fileName = Inr page" "baseTemplate t = Some base"
    "distinct (fsPaths webFs)" "CHR ''*'' \<notin> set fileName" "fileName \<noteq> ''''"
  shows "page = base\<lparr>tmplFiles := tmplFiles base @ [''templates/pages/'' @ fileName] @
      filter (\<lambda>f. \<exists>n. f = ''templates/components/'' @ n @ ''.html'' \<and> CHR ''/'' \<notin> set n) (fsPaths webFs)\<rparr>"
proof -
  from assms(1,2) obtain clone where c: "Must (Clone base) = Inr clone"
    and p: "Must (ParseFS clone webFs [pathJoin [pagesDir, fileName], pathJoin [componentsDir, ''*.html'']]) = Inr page"
    by (auto simp: pageTmpl_def simp del: pathJoin.simps elim: bindP_InrE)
  have cb: "clone = base" using c by (auto dest!: Must_Inr simp: Clone_def split: if_splits)
  from p have pf: "page = clone\<lparr>tmplFiles := tmplFiles clone @
        Glob webFs (pathJoin [pagesDir, fileName]) @ Glob webFs (pathJoin [componentsDir, ''*.html''])\<rparr>"
    and ne: "Glob webFs (pathJoin [pagesDir, fileName]) \<noteq> []"
    by (auto simp del: pathJoin.simps dest!: Must_Inr ParseFS_files)
  have g1: "Glob webFs (pathJoin [pagesDir, fileName]) = [''templates/pages/'' @ fileName]"
    using Glob_literal[OF no_star_page[OF assms(4)] assms(3) ne] assms(5)
    by (simp add: pathJoin_page del: pathJoin.simps)
  have g2: "Glob webFs (pathJoin [componentsDir, ''*.html'']) =
      filter (\<lambda>f. \<exists>n. f = ''templates/components/'' @ n @ ''.html'' \<and> CHR ''/'' \<notin> set n) (fsPaths webFs)"
    using Glob_components[of webFs] by (simp add: componentsDir_def templatesDir_def)
  show ?thesis using pf cb g1 g2 by (simp del: pathJoin.simps)
qed

lemma Glob_component_file:
  assumes "distinct (fsPaths webFs)" "CHR ''*'' \<notin> set n" "Glob webFs (pathJoin [componentsDir, n @ ''.html'']) \<noteq> []"
  shows "Glob webFs (pathJoin [componentsDir, n @ ''.html'']) = [''templates/components/'' @ n @ ''.html'']"
proof -
  have "CHR ''*'' \<notin> set (pathJoin [componentsDir, n @ ''.html''])"
    unfolding pathJoin_component using assms(2) by simp
  from Glob_literal[OF this assms(1,3)] show ?thesis unfolding pathJoin_component .
qed

lemma componentTmpl_result:
  assumes "componentTmpl webFs t ident required = Inr c" "distinct (fsPaths webFs)"
    "\<forall>n \<in> set (required @ [ident]). CHR ''*'' \<notin> set n"
  shows "c = \<lparr>tmplName = ident, tmplFuncs = templateFuncs t,
             tmplFiles = map (\<lambda>n. ''templates/components/'' @ n @ ''.html'') (required @ [ident]),
             tmplExecuted = False\<rparr>"
proof -
  let ?pats = "map (\<lambda>n. pathJoin [componentsDir, n @ ''.html'']) (required @ [ident])"
  from assms(1) have p: "ParseFS (Funcs (New ident) (templateFuncs t)) webFs ?pats = Inr c"
    by (auto simp: componentTmpl_def Let_def simp del: pathJoin.simps dest!: Must_Inr)
  from ParseFS_files[OF p] have c: "c = (Funcs (New ident) (templateFuncs t))\<lparr>tmplFiles :=
        tmplFiles (Funcs (New ident) (templateFuncs t)) @ concat (map (Glob webFs) ?pats)\<rparr>"
    and ne: "\<forall>p \<in> set ?pats. Glob webFs p \<noteq> []" by (auto simp del: pathJoin.simps)
  have m: "map (Glob webFs) ?pats = map (\<lambda>n. [''templates/components/'' @ n @ ''.html'']) (required @ [ident])"
    unfolding map_map
  proof (rule map_cong[OF refl])
    fix n assume n: "n \<in> set (required @ [ident])"
    then have "Glob webFs (pathJoin [componentsDir, n @ ''.html'']) \<noteq> []"
      using ne by (auto simp del: pathJoin.simps)
    then show "(Glob webFs \<circ> (\<lambda>n. pathJoin [componentsDir, n @ ''.html''])) n = [''templates/components/'' @ n @ ''.html'']"
      using Glob_component_file[OF assms(2)] assms(3) n by (auto simp del: pathJoin.simps)
  qed
  have "concat (map (Glob webFs) ?pats) =
      concat (map (\<lambda>n. [''templates/components/'' @ n @ ''.html'']) (required @ [ident]))"
    by (rule arg_cong[OF m])
  also have "\<dots> = map (\<lambda>n. ''templates/components/'' @ n @ ''.html'') (required @ [ident])"
    by (rule concat_map_singleton)
  finally have cm: "concat (map (Glob webFs) ?pats) =
      map (\<lambda>n. ''templates/components/'' @ n @ ''.html'') (required @ [ident])" .
  show ?thesis unfolding c cm by (simp add: Funcs_def New_def)
qed

lemma parseBase_result:
  assumes "parseBase webFs t = Inr base" "distinct (fsPaths webFs)"
  shows "base = \<lparr>tmplName = ''base.html'', tmplFuncs = templateFuncs t,
             tmplFiles = [''templates/layout/base.html''], tmplExecuted = False\<rparr>"
proof -
  have pj: "pathJoin [templatesDir, ''layout'', ''base.html''] = ''templates/layout/base.html''"
    by (simp add: templatesDir_def)
  from assms(1) have p: "ParseFS (Funcs (New ''base.html'') (templateFuncs t)) webFs [''templates/layout/base.html''] = Inr base"
    by (auto simp: parseBase_def pj simp del: pathJoin.simps dest!: Must_Inr)
  from ParseFS_files[OF p] have c: "base = (Funcs (New ''base.html'') (templateFuncs t))\<lparr>tmplFiles :=
        tmplFiles (Funcs (New ''base.html'') (templateFuncs t)) @ Glob webFs ''templates/layout/base.html''\<rparr>"
    and ne: "Glob webFs ''templates/layout/base.html'' \<noteq> []" by auto
  have "Glob webFs ''templates/layout/base.html'' = [''templates/layout/base.html'']"
    using ne assms(2) by (intro Glob_literal) simp_all
  then show ?thesis using c by (simp add: Funcs_def New_def)
qed

subsection \<open>The sample file system compiles\<close>

lemma sample_distinct: "distinct (fsPaths sampleFs)"
  by (simp add: sampleFs_def)

lemma sample_components:
  "Glob sampleFs ''templates/components/*.html'' =
     [''templates/components/datalist.html'',
      ''templates/components/discussion-badge.html'',
      ''templates/components/pkg-config-input.html'',
      ''templates/components/pkg-detail-btns.html'',
      ''templates/components/pkg-detail-header.html'',
      ''templates/components/pkg-uninstall-modal.html'',
      ''templates/components/toast.html'',
      ''templates/components/yaml-modal.html'']"
  by (simp add: Glob_def sampleFs_def)

lemma sample_literal:
  "p \<in> set (fsPaths sampleFs) \<Longrightarrow> CHR ''*'' \<notin> set p \<Longrightarrow> Glob sampleFs p = [p]"
proof -
  assume a: "p \<in> set (fsPaths sampleFs)" "CHR ''*'' \<notin> set p"
  have "Glob sampleFs p \<noteq> []"
    using a by (auto simp: Glob_def filter_empty_conv pathMatch_literal)
  then show ?thesis using a sample_distinct by (intro Glob_literal)
qed

lemma sample_parseLoop:
  "parseLoop sampleFs t filenames = Inr (t\<lparr>tmplFiles := tmplFiles t @ filenames\<rparr>)"
proof (induction filenames arbitrary: t)
  case Nil
  show ?case by simp
next
  case (Cons a filenames)
  have "fsParses sampleFs (tmplFuncs t) a" by (simp add: sampleFs_def)
  then show ?case using Cons[of "t\<lparr>tmplFiles := tmplFiles t @ [a]\<rparr>"] by simp
qed

lemma sample_ParseFS:
  assumes "\<not> tmplExecuted t" "patterns \<noteq> []" "\<forall>p \<in> set patterns. Glob sampleFs p \<noteq> []"
  shows "\<exists>t'. Must (ParseFS t sampleFs patterns) = Inr t'"
proof -
  have g: "globPatterns sampleFs ps = Inr (concat (map (Glob sampleFs) ps))"
    if "\<forall>p \<in> set ps. Glob sampleFs p \<noteq> []" for ps
    using that by (induction ps) (simp_all add: Let_def)
  have "concat (map (Glob sampleFs) patterns) \<noteq> []"
    using assms(2,3) by (cases patterns) auto
  then show ?thesis
    using assms(1) g[OF assms(3)]
    by (simp add: ParseFS_def parseFiles_def sample_parseLoop Must_def)
qed

lemma sample_ParseFS_executed:
  "Must (ParseFS t sampleFs patterns) = Inr t' \<Longrightarrow> tmplExecuted t' = tmplExecuted t"
  by (auto dest!: Must_Inr ParseFS_files)

lemma sample_page_glob:
  "f \<in> {''clusterpackages.html'', ''packages.html'', ''package.html'', ''discussion.html'',
        ''support.html'', ''bootstrap.html'', ''kubeconfig.html'', ''settings.html'',
        ''repository.html''} \<Longrightarrow>
   Glob sampleFs (pathJoin [pagesDir, f]) \<noteq> []"
  by (rule ssubst[OF sample_literal])
    (auto simp: sampleFs_def pagesDir_def templatesDir_def)

lemma sample_component_glob:
  "n \<in> {''pkg-detail-header'', ''pkg-detail-btns'', ''pkg-config-input'', ''datalist'',
        ''pkg-uninstall-modal'', ''toast'', ''discussion-badge'', ''yaml-modal''} \<Longrightarrow>
   Glob sampleFs (pathJoin [componentsDir, n @ ''.html'']) \<noteq> []"
  by (rule ssubst[OF sample_literal])
    (auto simp: sampleFs_def componentsDir_def templatesDir_def)

lemma sample_pageTmpl:
  assumes "baseTemplate T = Some base" "\<not> tmplExecuted base"
    "f \<in> {''clusterpackages.html'', ''packages.html'', ''package.html'', ''discussion.html'',
        ''support.html'', ''bootstrap.html'', ''kubeconfig.html'', ''settings.html'',
        ''repository.html''}"
  shows "\<exists>page. pageTmpl sampleFs T f = Inr page"
proof -
  have c: "Glob sampleFs (pathJoin [componentsDir, ''*.html'']) \<noteq> []"
    using sample_components by (simp add: componentsDir_def templatesDir_def)
  have "\<exists>t'. Must (ParseFS base sampleFs [pathJoin [pagesDir, f], pathJoin [componentsDir, ''*.html'']]) = Inr t'"
    using assms(2) sample_page_glob[OF assms(3)] c
    by (intro sample_ParseFS) (simp_all del: pathJoin.simps)
  then show ?thesis
    using assms(1,2) by (simp add: pageTmpl_def bindP_def Must_def Clone_def del: pathJoin.simps)
qed

lemma sample_componentTmpl:
  assumes "\<forall>n \<in> set (required @ [ident]).
     n \<in> {''pkg-detail-header'', ''pkg-detail-btns'', ''pkg-config-input'', ''datalist'',
        ''pkg-uninstall-modal'', ''toast'', ''discussion-badge'', ''yaml-modal''}"
  shows "\<exists>c. componentTmpl sampleFs T ident required = Inr c"
proof -
  let ?pats = "map (\<lambda>n. pathJoin [componentsDir, n @ ''.html'']) (required @ [ident])"
  have "\<forall>p \<in> set ?pats. Glob sampleFs p \<noteq> []"
    using assms sample_component_glob by (auto simp del: pathJoin.simps)
  then have "\<exists>t'. Must (ParseFS (Funcs (New ident) (templateFuncs T)) sampleFs ?pats) = Inr t'"
    by (intro sample_ParseFS) (simp_all add: Funcs_def New_def del: pathJoin.simps)
  then show ?thesis by (simp add: componentTmpl_def Let_def del: pathJoin.simps)
qed


lemma bindP_ex:
  assumes "\<exists>x. r = Inr x" "\<And>x. r = Inr x \<Longrightarrow> \<exists>y. f x = Inr y"
  shows "\<exists>y. bindP r f = Inr y"
  using assms by (auto simp: bindP_def)

lemma parseBase_fresh: "parseBase webFs T = Inr b \<Longrightarrow> \<not> tmplExecuted b"
  by (auto simp: parseBase_def Funcs_def New_def simp del: pathJoin.simps dest!: Must_Inr ParseFS_files)

lemma sample_parseBase: "\<exists>b. parseBase sampleFs T = Inr b"
proof -
  have "Glob sampleFs ''templates/layout/base.html'' \<noteq> []"
    by (rule ssubst[OF sample_literal]) (auto simp: sampleFs_def)
  then have "\<exists>t'. Must (ParseFS (Funcs (New ''base.html'') (templateFuncs T)) sampleFs
      [''templates/layout/base.html'']) = Inr t'"
    by (intro sample_ParseFS) (simp_all add: Funcs_def New_def)
  then show ?thesis by (simp add: parseBase_def templatesDir_def)
qed

lemma sample_compiles: "\<exists>t. parseTemplates sampleFs t0 = Inr t"
  unfolding parseTemplates_def Let_def
  apply (rule bindP_ex, rule sample_parseBase)
  apply (rule bindP_ex, rule sample_pageTmpl, simp, erule parseBase_fresh, simp)+
  apply (rule bindP_ex, rule sample_componentTmpl, simp)+
  apply simp
  done

subsection \<open>Template composition\<close>

text \<open>
  Claim C8. When \<open>parseTemplates\<close> returns (on a file system that lists each file once):
  the base layout is the template \<open>base.html\<close> with the function map attached and the
  layout file parsed into it; every page template is that base layout with the page's
  own file and then every file \<open>templates/components/*.html\<close> of the file system parsed
  into it, so it carries the function map too; every component template is a new template
  named by its id, with the function map attached, into which exactly the listed
  required component files and then the component's own file are parsed.
\<close>

theorem parseTemplates_composition:
  assumes p: "parseTemplates webFs t0 = Inr t"
    and d: "distinct (fsPaths webFs)"
  shows "\<exists>base. baseTemplate t = Some base
     \<and> templateFuncs t = funcMapKeys
     \<and> base = \<lparr>tmplName = ''base.html'', tmplFuncs = funcMapKeys,
               tmplFiles = [''templates/layout/base.html''], tmplExecuted = False\<rparr>
     \<and> (\<forall>(field, fileName) \<in> set pageFields.
           field t = Some (base\<lparr>tmplFiles := tmplFiles base @ [''templates/pages/'' @ fileName] @
             filter (\<lambda>f. \<exists>n. f = ''templates/components/'' @ n @ ''.html'' \<and> CHR ''/'' \<notin> set n)
               (fsPaths webFs)\<rparr>))
     \<and> (\<forall>(field, ident, required) \<in> set componentFields.
           field t = Some \<lparr>tmplName = ident, tmplFuncs = funcMapKeys,
             tmplFiles = map (\<lambda>n. ''templates/components/'' @ n @ ''.html'') (required @ [ident]),
             tmplExecuted = False\<rparr>)"
proof -
  from p obtain b p1 p2 p3 p4 p5 p6 p7 p8 p9 c1 c2 c3 c4 c5 c6 c7 where
    b: "parseBase webFs (t0\<lparr>templateFuncs := funcMapKeys\<rparr>) = Inr b" and
    p1: "\<exists>T. pageTmpl webFs T ''clusterpackages.html'' = Inr p1 \<and> baseTemplate T = Some b" and
    p2: "\<exists>T. pageTmpl webFs T ''packages.html'' = Inr p2 \<and> baseTemplate T = Some b" and
    p3: "\<exists>T. pageTmpl webFs T ''package.html'' = Inr p3 \<and> baseTemplate T = Some b" and
    p4: "\<exists>T. pageTmpl webFs T ''discussion.html'' = Inr p4 \<and> baseTemplate T = Some b" and
    p5: "\<exists>T. pageTmpl webFs T ''support.html'' = Inr p5 \<and> baseTemplate T = Some b" and
    p6: "\<exists>T. pageTmpl webFs T ''bootstrap.html'' = Inr p6 \<and> baseTemplate T = Some b" and
    p7: "\<exists>T. pageTmpl webFs T ''kubeconfig.html'' = Inr p7 \<and> baseTemplate T = Some b" and
    p8: "\<exists>T. pageTmpl webFs T ''settings.html'' = Inr p8 \<and> baseTemplate T = Some b" and
    p9: "\<exists>T. pageTmpl webFs T ''repository.html'' = Inr p9 \<and> baseTemplate T = Some b" and
    c1: "\<exists>T. componentTmpl webFs T ''pkg-detail-header'' [''pkg-detail-btns''] = Inr c1 \<and> templateFuncs T = funcMapKeys" and
    c2: "\<exists>T. componentTmpl webFs T ''pkg-config-input'' [''datalist''] = Inr c2 \<and> templateFuncs T = funcMapKeys" and
    c3: "\<exists>T. componentTmpl webFs T ''pkg-uninstall-modal'' [] = Inr c3 \<and> templateFuncs T = funcMapKeys" and
    c4: "\<exists>T. componentTmpl webFs T ''toast'' [] = Inr c4 \<and> templateFuncs T = funcMapKeys" and
    c5: "\<exists>T. componentTmpl webFs T ''datalist'' [] = Inr c5 \<and> templateFuncs T = funcMapKeys" and
    c6: "\<exists>T. componentTmpl webFs T ''discussion-badge'' [] = Inr c6 \<and> templateFuncs T = funcMapKeys" and
    c7: "\<exists>T. componentTmpl webFs T ''yaml-modal'' [] = Inr c7 \<and> templateFuncs T = funcMapKeys"
    and t: "t = t0\<lparr>templateFuncs := funcMapKeys, baseTemplate := Some b,
        clusterPkgsPageTemplate := Some p1, pkgsPageTmpl := Some p2, pkgPageTmpl := Some p3,
        pkgDiscussionPageTmpl := Some p4, supportPageTmpl := Some p5, bootstrapPageTmpl := Some p6,
        kubeconfigPageTmpl := Some p7, settingsPageTmpl := Some p8, repositoryPageTmpl := Some p9,
        pkgDetailHeaderTmpl := Some c1, pkgConfigInput := Some c2, pkgUninstallModalTmpl := Some c3,
        toastTmpl := Some c4, datalistTmpl := Some c5, pkgDiscussionBadgeTmpl := Some c6,
        yamlModalTmpl := Some c7\<rparr>"
    unfolding parseTemplates_def Let_def
  proof (elim bindP_InrE, goal_cases)
    case (1 b p1 p2 p3 p4 p5 p6 p7 p8 p9 c1 c2 c3 c4 c5 c6 c7)
    show ?case
    proof (rule 1(1)[of b p1 p2 p3 p4 p5 p6 p7 p8 p9 c1 c2 c3 c4 c5 c6 c7])
      show "parseBase webFs (t0\<lparr>templateFuncs := funcMapKeys\<rparr>) = Inr b" by (rule 1(2))
      show "\<exists>T. pageTmpl webFs T ''clusterpackages.html'' = Inr p1 \<and> baseTemplate T = Some b"
        by (rule exI, rule conjI, rule 1(3), simp)
      show "\<exists>T. pageTmpl webFs T ''packages.html'' = Inr p2 \<and> baseTemplate T = Some b"
        by (rule exI, rule conjI, rule 1(4), simp)
      show "\<exists>T. pageTmpl webFs T ''package.html'' = Inr p3 \<and> baseTemplate T = Some b"
        by (rule exI, rule conjI, rule 1(5), simp)
      show "\<exists>T. pageTmpl webFs T ''discussion.html'' = Inr p4 \<and> baseTemplate T = Some b"
        by (rule exI, rule conjI, rule 1(6), simp)
      show "\<exists>T. pageTmpl webFs T ''support.html'' = Inr p5 \<and> baseTemplate T = Some b"
        by (rule exI, rule conjI, rule 1(7), simp)
      show "\<exists>T. pageTmpl webFs T ''bootstrap.html'' = Inr p6 \<and> baseTemplate T = Some b"
        by (rule exI, rule conjI, rule 1(8), simp)
      show "\<exists>T. pageTmpl webFs T ''kubeconfig.html'' = Inr p7 \<and> baseTemplate T = Some b"
        by (rule exI, rule conjI, rule 1(9), simp)
      show "\<exists>T. pageTmpl webFs T ''settings.html'' = Inr p8 \<and> baseTemplate T = Some b"
        by (rule exI, rule conjI, rule 1(10), simp)
      show "\<exists>T. pageTmpl webFs T ''repository.html'' = Inr p9 \<and> baseTemplate T = Some b"
        by (rule exI, rule conjI, rule 1(11), simp)
      show "\<exists>T. componentTmpl webFs T ''pkg-detail-header'' [''pkg-detail-btns''] = Inr c1 \<and> templateFuncs T = funcMapKeys"
        by (rule exI, rule conjI, rule 1(12), simp)
      show "\<exists>T. componentTmpl webFs T ''pkg-config-input'' [''datalist''] = Inr c2 \<and> templateFuncs T = funcMapKeys"
        by (rule exI, rule conjI, rule 1(13), simp)
      show "\<exists>T. componentTmpl webFs T ''pkg-uninstall-modal'' [] = Inr c3 \<and> templateFuncs T = funcMapKeys"
        by (rule exI, rule conjI, rule 1(14), simp)
      show "\<exists>T. componentTmpl webFs T ''toast'' [] = Inr c4 \<and> templateFuncs T = funcMapKeys"
        by (rule exI, rule conjI, rule 1(15), simp)
      show "\<exists>T. componentTmpl webFs T ''datalist'' [] = Inr c5 \<and> templateFuncs T = funcMapKeys"
        by (rule exI, rule conjI, rule 1(16), simp)
      show "\<exists>T. componentTmpl webFs T ''discussion-badge'' [] = Inr c6 \<and> templateFuncs T = funcMapKeys"
        by (rule exI, rule conjI, rule 1(17), simp)
      show "\<exists>T. componentTmpl webFs T ''yaml-modal'' [] = Inr c7 \<and> templateFuncs T = funcMapKeys"
        by (rule exI, rule conjI, rule 1(18), simp)
      show "t = t0\<lparr>templateFuncs := funcMapKeys, baseTemplate := Some b,
        clusterPkgsPageTemplate := Some p1, pkgsPageTmpl := Some p2, pkgPageTmpl := Some p3,
        pkgDiscussionPageTmpl := Some p4, supportPageTmpl := Some p5, bootstrapPageTmpl := Some p6,
        kubeconfigPageTmpl := Some p7, settingsPageTmpl := Some p8, repositoryPageTmpl := Some p9,
        pkgDetailHeaderTmpl := Some c1, pkgConfigInput := Some c2, pkgUninstallModalTmpl := Some c3,
        toastTmpl := Some c4, datalistTmpl := Some c5, pkgDiscussionBadgeTmpl := Some c6,
        yamlModalTmpl := Some c7\<rparr>"
        using 1(19) by simp
    qed
  qed
  have bb: "b = \<lparr>tmplName = ''base.html'', tmplFuncs = funcMapKeys,
               tmplFiles = [''templates/layout/base.html''], tmplExecuted = False\<rparr>"
    using parseBase_result[OF b d] by simp
  have pg: "page = b\<lparr>tmplFiles := tmplFiles b @ [''templates/pages/'' @ f] @
             filter (\<lambda>f. \<exists>n. f = ''templates/components/'' @ n @ ''.html'' \<and> CHR ''/'' \<notin> set n)
               (fsPaths webFs)\<rparr>"
    if "\<exists>T. pageTmpl webFs T f = Inr page \<and> baseTemplate T = Some b"
      and "CHR ''*'' \<notin> set f" and "f \<noteq> ''''" for page f
    using that pageTmpl_result d by blast
  have cp: "c = \<lparr>tmplName = i, tmplFuncs = funcMapKeys,
             tmplFiles = map (\<lambda>n. ''templates/components/'' @ n @ ''.html'') (r @ [i]),
             tmplExecuted = False\<rparr>"
    if "\<exists>T. componentTmpl webFs T i r = Inr c \<and> templateFuncs T = funcMapKeys"
      and "\<forall>n \<in> set (r @ [i]). CHR ''*'' \<notin> set n" for c i r
  proof -
    from that(1) obtain T where T: "componentTmpl webFs T i r = Inr c" "templateFuncs T = funcMapKeys"
      by blast
    from componentTmpl_result[OF T(1) d that(2)] T(2) show ?thesis by simp
  qed
  note qp1 = pg[OF p1, simplified]
  note qp2 = pg[OF p2, simplified]
  note qp3 = pg[OF p3, simplified]
  note qp4 = pg[OF p4, simplified]
  note qp5 = pg[OF p5, simplified]
  note qp6 = pg[OF p6, simplified]
  note qp7 = pg[OF p7, simplified]
  note qp8 = pg[OF p8, simplified]
  note qp9 = pg[OF p9, simplified]
  note qc1 = cp[OF c1, simplified]
  note qc2 = cp[OF c2, simplified]
  note qc3 = cp[OF c3, simplified]
  note qc4 = cp[OF c4, simplified]
  note qc5 = cp[OF c5, simplified]
  note qc6 = cp[OF c6, simplified]
  note qc7 = cp[OF c7, simplified]
  have tf: "templateFuncs t = funcMapKeys" "baseTemplate t = Some b" by (simp_all add: t)
  have pgs: "\<forall>(field, fileName) \<in> set pageFields.
           field t = Some (b\<lparr>tmplFiles := tmplFiles b @ [''templates/pages/'' @ fileName] @
             filter (\<lambda>f. \<exists>n. f = ''templates/components/'' @ n @ ''.html'' \<and> CHR ''/'' \<notin> set n)
               (fsPaths webFs)\<rparr>)"
    unfolding pageFields_def t using qp1 qp2 qp3 qp4 qp5 qp6 qp7 qp8 qp9 by simp
  have cps: "\<forall>(field, ident, required) \<in> set componentFields.
           field t = Some \<lparr>tmplName = ident, tmplFuncs = funcMapKeys,
             tmplFiles = map (\<lambda>n. ''templates/components/'' @ n @ ''.html'') (required @ [ident]),
             tmplExecuted = False\<rparr>"
    unfolding componentFields_def t using qc1 qc2 qc3 qc4 qc5 qc6 qc7 by simp
  show ?thesis using tf bb pgs cps by blast
qed

theorem parseTemplates_composition_witness:
  "distinct (fsPaths sampleFs)
   \<and> (\<exists>t. parseTemplates sampleFs emptyRegistry = Inr t
        \<and> baseTemplate t = Some \<lparr>tmplName = ''base.html'', tmplFuncs = funcMapKeys,
               tmplFiles = [''templates/layout/base.html''], tmplExecuted = False\<rparr>
        \<and> supportPageTmpl t = Some \<lparr>tmplName = ''base.html'', tmplFuncs = funcMapKeys,
               tmplFiles =
                 [''templates/layout/base.html'',
                  ''templates/pages/support.html'',
                  ''templates/components/datalist.html'',
                  ''templates/components/discussion-badge.html'',
                  ''templates/components/pkg-config-input.html'',
                  ''templates/components/pkg-detail-btns.html'',
                  ''templates/components/pkg-detail-header.html'',
                  ''templates/components/pkg-uninstall-modal.html'',
                  ''templates/components/toast.html'',
                  ''templates/components/yaml-modal.html''],
               tmplExecuted = False\<rparr>
        \<and> pkgConfigInput t = Some \<lparr>tmplName = ''pkg-config-input'', tmplFuncs = funcMapKeys,
               tmplFiles = [''templates/components/datalist.html'',
                            ''templates/components/pkg-config-input.html''],
               tmplExecuted = False\<rparr>)"
proof -
  obtain t where t: "parseTemplates sampleFs emptyRegistry = Inr t"
    using sample_compiles by blast
  from parseTemplates_composition[OF t sample_distinct]
  obtain base where b: "baseTemplate t = Some base"
      "base = \<lparr>tmplName = ''base.html'', tmplFuncs = funcMapKeys,
               tmplFiles = [''templates/layout/base.html''], tmplExecuted = False\<rparr>"
    and pg: "\<forall>(field, fileName) \<in> set pageFields.
           field t = Some (base\<lparr>tmplFiles := tmplFiles base @ [''templates/pages/'' @ fileName] @
             filter (\<lambda>f. \<exists>n. f = ''templates/components/'' @ n @ ''.html'' \<and> CHR ''/'' \<notin> set n)
               (fsPaths sampleFs)\<rparr>)"
    and cp: "\<forall>(field, ident, required) \<in> set componentFields.
           field t = Some \<lparr>tmplName = ident, tmplFuncs = funcMapKeys,
             tmplFiles = map (\<lambda>n. ''templates/components/'' @ n @ ''.html'') (required @ [ident]),
             tmplExecuted = False\<rparr>"
    by blast
  have "(supportPageTmpl, ''support.html'') \<in> set pageFields"
    by (simp add: pageFields_def)
  from bspec[OF pg this]
  have s: "supportPageTmpl t = Some (base\<lparr>tmplFiles := tmplFiles base @ [''templates/pages/'' @ ''support.html''] @
             Glob sampleFs ''templates/components/*.html''\<rparr>)"
    unfolding Glob_components by simp
  have "(pkgConfigInput, ''pkg-config-input'', [''datalist'']) \<in> set componentFields"
    by (simp add: componentFields_def)
  from bspec[OF cp this]
  have c: "pkgConfigInput t = Some \<lparr>tmplName = ''pkg-config-input'', tmplFuncs = funcMapKeys,
               tmplFiles = [''templates/components/datalist.html'',
                            ''templates/components/pkg-config-input.html''],
               tmplExecuted = False\<rparr>"
    by simp
  show ?thesis
    using t b s c sample_distinct unfolding sample_components by (intro conjI exI[of _ t]) simp_all
qed

subsection \<open>The event loop\<close>

lemma eventLoop_count:
  "eventLoop events t calls = Inr (t', calls') \<Longrightarrow> calls' = calls + length events"
proof (induction events arbitrary: t calls)
  case Nil
  then show ?case by simp
next
  case (Cons e events)
  obtain ev webFs where e: "e = (ev, webFs)" by (cases e)
  from Cons.prems e obtain t1 where "parseTemplates webFs t = Inr t1"
      "eventLoop events t1 (Suc calls) = Inr (t', calls')"
    by (auto split: sum.splits)
  from Cons.IH[OF this(2)] show ?case by simp
qed

lemma eventLoop_returns:
  "\<forall>(ev, webFs) \<in> set events. \<forall>t0. \<exists>t1. parseTemplates webFs t0 = Inr t1 \<Longrightarrow>
   \<exists>t1. eventLoop events t calls = Inr (t1, calls + length events)"
proof (induction events arbitrary: t calls)
  case Nil
  show ?case by simp
next
  case (Cons e events)
  obtain ev webFs where e: "e = (ev, webFs)" by (cases e)
  from Cons.prems e obtain t1 where t1: "parseTemplates webFs t = Inr t1" by fastforce
  from Cons.prems have "\<forall>(ev, webFs) \<in> set events. \<forall>t0. \<exists>t1. parseTemplates webFs t0 = Inr t1"
    by simp
  from Cons.IH[OF this, of t1 "Suc calls"] show ?case using e t1 by simp
qed

lemma eventLoop_any_event:
  "eventLoop (map (\<lambda>(ev, webFs). (other ev, webFs)) events) t calls = eventLoop events t calls"
proof (induction events arbitrary: t calls)
  case Nil
  show ?case by simp
next
  case (Cons e events)
  obtain ev webFs where e: "e = (ev, webFs)" by (cases e)
  show ?case using Cons.IH by (simp add: e split: sum.splits)
qed

lemma eventLoop_chain:
  "eventLoop events t calls = Inr (t', calls') \<Longrightarrow>
     \<exists>ts. length ts = length events
        \<and> (\<forall>i < length events. parseTemplates (snd (events ! i)) ((t # ts) ! i) = Inr (ts ! i))
        \<and> t' = last (t # ts)"
proof (induction events arbitrary: t calls)
  case Nil
  then show ?case by simp
next
  case (Cons e events)
  obtain ev webFs where e: "e = (ev, webFs)" by (cases e)
  from Cons.prems e obtain t1 where t1: "parseTemplates webFs t = Inr t1"
    and r: "eventLoop events t1 (Suc calls) = Inr (t', calls')"
    by (auto split: sum.splits)
  from Cons.IH[OF r] obtain ts where ts: "length ts = length events"
      "\<forall>i < length events. parseTemplates (snd (events ! i)) ((t1 # ts) ! i) = Inr (ts ! i)"
      "t' = last (t1 # ts)"
    by blast
  have "parseTemplates (snd ((e # events) ! i)) ((t # t1 # ts) ! i) = Inr ((t1 # ts) ! i)"
    if "i < length (e # events)" for i
  proof (cases i)
    case 0
    then show ?thesis using t1 e by simp
  next
    case (Suc j)
    then show ?thesis using ts(2) that by simp
  qed
  then show ?case using ts(1,3) by (intro exI[of _ "t1 # ts"]) simp
qed

lemma eventLoop_of_chain:
  "length ts = length events \<Longrightarrow>
   \<forall>i < length events. parseTemplates (snd (events ! i)) ((t # ts) ! i) = Inr (ts ! i) \<Longrightarrow>
   eventLoop events t calls = Inr (last (t # ts), calls + length events)"
proof (induction events arbitrary: t ts calls)
  case Nil
  then show ?case by simp
next
  case (Cons e events)
  obtain ev webFs where e: "e = (ev, webFs)" by (cases e)
  from Cons.prems(1) obtain t1 ts' where ts: "ts = t1 # ts'" "length ts' = length events"
    by (cases ts) auto
  from Cons.prems(2)[rule_format, of 0] have t1: "parseTemplates webFs t = Inr t1"
    using e ts by simp
  have "\<forall>i < length events. parseTemplates (snd (events ! i)) ((t1 # ts') ! i) = Inr (ts' ! i)"
  proof (intro allI impI)
    fix i assume "i < length events"
    then show "parseTemplates (snd (events ! i)) ((t1 # ts') ! i) = Inr (ts' ! i)"
      using Cons.prems(2)[rule_format, of "Suc i"] ts by simp
  qed
  from Cons.IH[OF ts(2) this, of "Suc calls"] show ?case
    using e t1 ts by simp
qed

lemma eventLoop_panic:
  "eventLoop events t calls = Inl p \<Longrightarrow>
     \<exists>k ts. k < length events \<and> length ts = k
        \<and> (\<forall>i < k. parseTemplates (snd (events ! i)) ((t # ts) ! i) = Inr (ts ! i))
        \<and> parseTemplates (snd (events ! k)) (last (t # ts)) = Inl p"
proof (induction events arbitrary: t calls)
  case Nil
  then show ?case by simp
next
  case (Cons e events)
  obtain ev webFs where e: "e = (ev, webFs)" by (cases e)
  show ?case
  proof (cases "parseTemplates webFs t")
    case (Inl p')
    then have "p' = p" using Cons.prems e by simp
    then show ?thesis using Inl e by (intro exI[of _ 0] exI[of _ "[]"]) simp
  next
    case (Inr t1)
    then have "eventLoop events t1 (Suc calls) = Inl p" using Cons.prems e by simp
    from Cons.IH[OF this] obtain k ts where k: "k < length events" "length ts = k"
        "\<forall>i < k. parseTemplates (snd (events ! i)) ((t1 # ts) ! i) = Inr (ts ! i)"
        "parseTemplates (snd (events ! k)) (last (t1 # ts)) = Inl p"
      by blast
    have "parseTemplates (snd ((e # events) ! i)) ((t # t1 # ts) ! i) = Inr ((t1 # ts) ! i)"
      if "i < Suc k" for i
    proof (cases i)
      case 0
      then show ?thesis using Inr e by simp
    next
      case (Suc j)
      then show ?thesis using k(3) that by simp
    qed
    then show ?thesis using k(1,2,4) by (intro exI[of _ "Suc k"] exI[of _ "t1 # ts"]) simp
  qed
qed

lemma parseTemplates_base:
  assumes "parseTemplates webFs t0 = Inr t"
  shows "\<exists>b. parseBase webFs (t0\<lparr>templateFuncs := funcMapKeys\<rparr>) = Inr b \<and> baseTemplate t = Some b"
  using assms unfolding parseTemplates_def Let_def
  by (elim bindP_InrE) auto

text \<open>
  Claim C5. The event loop runs \<open>parseTemplates\<close> once for every event it receives on
  the channel. When the loop has consumed the events, the number of calls has grown by
  the number of events and the registries form a chain: the registry after the
  \<open>i\<close>-th event is what \<open>parseTemplates\<close> returns on the file system of that event and the
  registry before it, and the loop ends with the last of them; conversely such a chain
  determines the result of the loop. When the loop panics, it is the recompilation for
  some event that panicked, after one successful recompilation for each earlier event.
  The loop consumes all events whenever each recompilation succeeds, and what the events
  are (their names and operations) has no influence on the run, so nothing is filtered,
  coalesced or debounced.
\<close>

theorem eventLoop_one_compile_per_event:
  "(eventLoop events t calls = Inr (t', calls') \<longrightarrow>
      calls' = calls + length events
      \<and> (\<exists>ts. length ts = length events
            \<and> (\<forall>i < length events. parseTemplates (snd (events ! i)) ((t # ts) ! i) = Inr (ts ! i))
            \<and> t' = last (t # ts)))
   \<and> (\<forall>ts. length ts = length events
            \<and> (\<forall>i < length events. parseTemplates (snd (events ! i)) ((t # ts) ! i) = Inr (ts ! i)) \<longrightarrow>
          eventLoop events t calls = Inr (last (t # ts), calls + length events))
   \<and> (eventLoop events t calls = Inl p \<longrightarrow>
        (\<exists>k ts. k < length events \<and> length ts = k
            \<and> (\<forall>i < k. parseTemplates (snd (events ! i)) ((t # ts) ! i) = Inr (ts ! i))
            \<and> parseTemplates (snd (events ! k)) (last (t # ts)) = Inl p))
   \<and> ((\<forall>(ev, webFs) \<in> set events. \<forall>t0. \<exists>t1. parseTemplates webFs t0 = Inr t1) \<longrightarrow>
        (\<exists>t1. eventLoop events t calls = Inr (t1, calls + length events)))
   \<and> eventLoop (map (\<lambda>(ev, webFs). (other ev, webFs)) events) t calls = eventLoop events t calls"
proof (intro conjI impI allI)
  assume a: "eventLoop events t calls = Inr (t', calls')"
  show "calls' = calls + length events" using a by (rule eventLoop_count)
  show "\<exists>ts. length ts = length events
            \<and> (\<forall>i < length events. parseTemplates (snd (events ! i)) ((t # ts) ! i) = Inr (ts ! i))
            \<and> t' = last (t # ts)"
    using a by (rule eventLoop_chain)
next
  fix ts
  assume "length ts = length events
            \<and> (\<forall>i < length events. parseTemplates (snd (events ! i)) ((t # ts) ! i) = Inr (ts ! i))"
  then show "eventLoop events t calls = Inr (last (t # ts), calls + length events)"
    using eventLoop_of_chain by blast
next
  assume "eventLoop events t calls = Inl p"
  then show "\<exists>k ts. k < length events \<and> length ts = k
            \<and> (\<forall>i < k. parseTemplates (snd (events ! i)) ((t # ts) ! i) = Inr (ts ! i))
            \<and> parseTemplates (snd (events ! k)) (last (t # ts)) = Inl p"
    by (rule eventLoop_panic)
next
  assume "\<forall>(ev, webFs) \<in> set events. \<forall>t0. \<exists>t1. parseTemplates webFs t0 = Inr t1"
  then show "\<exists>t1. eventLoop events t calls = Inr (t1, calls + length events)"
    by (rule eventLoop_returns)
next
  show "eventLoop (map (\<lambda>(ev, webFs). (other ev, webFs)) events) t calls = eventLoop events t calls"
    by (rule eventLoop_any_event)
qed

theorem eventLoop_one_compile_per_event_witness:
  "(\<forall>t0. \<exists>t1. parseTemplates sampleFs t0 = Inr t1)
   \<and> baseTemplate emptyRegistry = None
   \<and> (\<exists>t1 t2. parseTemplates sampleFs emptyRegistry = Inr t1
         \<and> parseTemplates sampleFs t1 = Inr t2
         \<and> eventLoop [(toastWritten, sampleFs), (supportRemoved, sampleFs)] emptyRegistry 0 = Inr (t2, 2)
         \<and> baseTemplate t2 = Some \<lparr>tmplName = ''base.html'', tmplFuncs = funcMapKeys,
               tmplFiles = [''templates/layout/base.html''], tmplExecuted = False\<rparr>)"
proof -
  let ?evs = "[(toastWritten, sampleFs), (supportRemoved, sampleFs)]"
  have c: "\<forall>t0. \<exists>t1. parseTemplates sampleFs t0 = Inr t1"
    using sample_compiles by blast
  have h: "\<forall>(ev, webFs) \<in> set ?evs. \<forall>t0. \<exists>t1. parseTemplates webFs t0 = Inr t1"
    using c by simp
  note w = eventLoop_one_compile_per_event[of ?evs emptyRegistry 0]
  from w h obtain t' where r: "eventLoop ?evs emptyRegistry 0 = Inr (t', 0 + length ?evs)"
    by blast
  from w[of t' "0 + length ?evs"] r obtain ts where ts: "length ts = length ?evs"
      "\<forall>i < length ?evs. parseTemplates (snd (?evs ! i)) ((emptyRegistry # ts) ! i) = Inr (ts ! i)"
      "t' = last (emptyRegistry # ts)"
    by blast
  from ts(1) obtain t1 t2 where l: "ts = [t1, t2]"
    by (cases ts; cases "tl ts") auto
  have p1: "parseTemplates sampleFs emptyRegistry = Inr t1"
    using ts(2)[rule_format, of 0] l by simp
  have p2: "parseTemplates sampleFs t1 = Inr t2"
    using ts(2)[rule_format, of 1] l by simp
  have e: "eventLoop ?evs emptyRegistry 0 = Inr (t2, 2)"
    using r ts(3) l by (simp del: eventLoop.simps)
  from parseTemplates_base[OF p2] obtain b where b: "parseBase sampleFs (t1\<lparr>templateFuncs := funcMapKeys\<rparr>) = Inr b"
      "baseTemplate t2 = Some b"
    by blast
  from parseBase_result[OF b(1) sample_distinct] b(2)
  have bt: "baseTemplate t2 = Some \<lparr>tmplName = ''base.html'', tmplFuncs = funcMapKeys,
               tmplFiles = [''templates/layout/base.html''], tmplExecuted = False\<rparr>"
    by simp
  have n: "baseTemplate emptyRegistry = None" by (simp add: emptyRegistry_def)
  from c n p1 p2 e bt show ?thesis by blast
qed

end
